theory Spec2Isabelle
  imports Main "HOL-Library.AList" "HOL-Library.Sublist"
begin

section \<open>Errors, sockets and the operating-system side\<close>

text \<open>
  A Go \<open>error\<close> value is either an error of the \<open>net\<close> package, carrying its message, or
  the result of \<open>errors.Wrap(err, msg)\<close>. \<open>Error_text\<close> is the method \<open>Error()\<close>:
  \<open>errors.Wrap\<close> prefixes the message and a colon.
\<close>

datatype error = NetError string | Wrap error string

fun Error_text :: "error \<Rightarrow> string" where
  "Error_text (NetError m) = m"
| "Error_text (Wrap e m) = m @ '': '' @ Error_text e"

text \<open>
  A \<open>net.Conn\<close>: the kernel descriptor that \<open>fdFromConn\<close> reads, the result that the
  socket's own \<open>Close()\<close> gives (decided by the operating system, hence a field of the model),
  and the number of times \<open>Close()\<close> has been called on the socket.
\<close>

record NetConn =
  Sysfd :: int
  close_result :: "error option"
  close_calls :: nat

definition NetConn_Close :: "NetConn \<Rightarrow> error option \<times> NetConn" where
  "NetConn_Close s = (close_result s, s\<lparr>close_calls := close_calls s + 1\<rparr>)"

text \<open>\<open>atomic.Bool.CompareAndSwap(old, new)\<close>: the flag afterwards and whether it swapped.\<close>

definition CompareAndSwap :: "bool \<Rightarrow> bool \<Rightarrow> bool \<Rightarrow> bool \<times> bool" where
  "CompareAndSwap v old new = (if v = old then (True, new) else (False, v))"

section \<open>conn.go: the connection handle\<close>

text \<open>
  The \<open>connManager\<close> interface value held by a handle: a pointer to one of the
  application's backends (its position in the configured list) or to the frontend.
\<close>

datatype connManager = BackendMgr nat | FrontendMgr

record Conn =
  net_Conn :: NetConn
  fd :: int
  closed :: bool
  manager :: connManager

definition fdFromConn :: "NetConn \<Rightarrow> int" where
  "fdFromConn conn = Sysfd conn"

definition newConn :: "NetConn \<Rightarrow> connManager \<Rightarrow> Conn" where
  "newConn conn mgr = \<lparr>net_Conn = conn, fd = fdFromConn conn, closed = False, manager = mgr\<rparr>"

text \<open>
  \<open>Conn.Close\<close>: when the compare-and-swap of \<open>closed\<close> from false to true succeeds, the
  result is that of the embedded socket's \<open>Close()\<close>; otherwise \<open>nil\<close>.
\<close>

definition Conn_Close :: "Conn \<Rightarrow> error option \<times> Conn" where
  "Conn_Close c =
     (let (swapped, flag) = CompareAndSwap (closed c) False True in
      if swapped then
        (let (r, s) = NetConn_Close (net_Conn c) in (r, c\<lparr>closed := flag, net_Conn := s\<rparr>))
      else (None, c\<lparr>closed := flag\<rparr>))"

text \<open>\<open>N\<close> successive calls of \<open>Close\<close> on one handle: the results in call order, and the handle.\<close>

fun Close_times :: "nat \<Rightarrow> Conn \<Rightarrow> error option list \<times> Conn" where
  "Close_times 0 c = ([], c)"
| "Close_times (Suc n) c =
     (let (r, c1) = Conn_Close c; (rs, c2) = Close_times n c1 in (r # rs, c2))"

section \<open>The store of handles and the network\<close>

text \<open>
  Handles are shared by pointer (\<open>*Conn\<close>): the managers' maps, the relay tasks and the
  teardown closure all refer to the same object. The store maps every address to the
  handle it holds; a Go pointer is never dangling, so the store is total.
\<close>

type_synonym ptr = nat
type_synonym heap = "ptr \<Rightarrow> Conn"

definition Close :: "ptr \<Rightarrow> heap \<Rightarrow> error option \<times> heap" where
  "Close p h = (let (r, c) = Conn_Close (h p) in (r, h(p := c)))"

text \<open>
  The dialler. What the \<open>k\<close>-th \<open>DialContext\<close> call of the process returns for an address
  is decided outside the program (\<open>dial_outcome\<close>); \<open>dialled\<close> records the calls made.
\<close>

record network =
  dial_outcome :: "nat \<Rightarrow> string \<Rightarrow> error + NetConn"
  dialled :: "string list"

definition DialContext :: "string \<Rightarrow> network \<Rightarrow> (error + NetConn) \<times> network" where
  "DialContext a n = (dial_outcome n (length (dialled n)) a, n\<lparr>dialled := dialled n @ [a]\<rparr>)"

section \<open>backend.go\<close>

text \<open>
  \<open>b_ctx\<close> is true when the backend's context is done. The \<open>connections\<close> map is an
  association list with one entry per key: \<open>m[k] = v\<close> is \<open>AList.update\<close>, \<open>delete(m, k)\<close>
  is \<open>AList.delete\<close>, \<open>len(m)\<close> is the length. Durations are in seconds. The logger is
  left out.
\<close>

record backend =
  b_ctx :: bool
  addr :: string
  dialler_Timeout :: nat
  active :: bool
  b_connections :: "(int \<times> ptr) list"
  healthcheckInterval :: nat

text \<open>\<open>newBackend\<close>; the first argument is what \<open>net.SplitHostPort\<close> answers for an address.\<close>

definition newBackend :: "(string \<Rightarrow> error option) \<Rightarrow> bool \<Rightarrow> string \<Rightarrow> error + backend" where
  "newBackend SplitHostPort ctx address =
     (case SplitHostPort address of
        Some err \<Rightarrow> Inl (Wrap err ''SplitHostPort()'')
      | None \<Rightarrow>
          Inr \<lparr>b_ctx = ctx, addr = address, dialler_Timeout = 2, active = False,
               b_connections = [], healthcheckInterval = 5\<rparr>)"

definition b_addConn :: "ptr \<Rightarrow> backend \<times> heap \<Rightarrow> backend \<times> heap" where
  "b_addConn conn s =
     (case s of (b, h) \<Rightarrow>
        let h1 = (if b_ctx b then snd (Close conn h) else h) in
        (b\<lparr>b_connections := AList.update (fd (h1 conn)) conn (b_connections b)\<rparr>, h1))"

definition b_delConn :: "ptr \<Rightarrow> backend \<times> heap \<Rightarrow> backend \<times> heap" where
  "b_delConn conn s =
     (case s of (b, h) \<Rightarrow>
        if b_ctx b then (b, h)
        else (b\<lparr>b_connections := AList.delete (fd (h conn)) (b_connections b)\<rparr>, h))"

definition getConnCount :: "backend \<Rightarrow> nat" where
  "getConnCount b = length (b_connections b)"

definition setActive :: "bool \<Rightarrow> backend \<Rightarrow> backend" where
  "setActive t b = (let (swapped, flag) = CompareAndSwap (active b) (\<not> t) t in b\<lparr>active := flag\<rparr>)"

definition createConn :: "backend \<times> network \<Rightarrow> (error + NetConn) \<times> backend \<times> network" where
  "createConn s =
     (case s of (b, n) \<Rightarrow>
        let (r, n1) = DialContext (addr b) n in
        case r of
          Inl err \<Rightarrow> (Inl (Wrap err ''Dial()''), setActive False b, n1)
        | Inr conn \<Rightarrow> (Inr conn, b, n1))"

text \<open>
  One health check, as \<open>runHealthcheck\<close> performs it right after start and again on every
  tick, in its two statements: the dial, whose result the goroutine holds in
  \<open>netConn, err\<close>, and then \<open>setActive(false)\<close> on an error, else the closing of the probe
  socket and \<open>setActive(true)\<close>.
\<close>

definition probe_dial :: "backend \<times> network \<Rightarrow> (error + NetConn) \<times> network" where
  "probe_dial s = (case s of (b, n) \<Rightarrow> DialContext (addr b) n)"

definition probe_set :: "error + NetConn \<Rightarrow> backend \<Rightarrow> backend" where
  "probe_set r b = (case r of Inl err \<Rightarrow> setActive False b | Inr probe \<Rightarrow> setActive True b)"

definition healthcheck :: "backend \<times> network \<Rightarrow> backend \<times> network" where
  "healthcheck s =
     (case s of (b, n) \<Rightarrow> let (r, n1) = probe_dial (b, n) in (probe_set r b, n1))"

text \<open>
  The \<open>select\<close> of the health loop takes whichever channel is ready; the list gives what
  each successive \<open>select\<close> received. When the list ends the loop is still waiting.
\<close>

datatype selected = CtxDone | TickerC

fun healthcheck_loop :: "selected list \<Rightarrow> backend \<times> network \<Rightarrow> backend \<times> network" where
  "healthcheck_loop [] s = s"
| "healthcheck_loop (CtxDone # xs) s = s"
| "healthcheck_loop (TickerC # xs) s = healthcheck_loop xs (healthcheck s)"

definition runHealthcheck :: "selected list \<Rightarrow> backend \<times> network \<Rightarrow> backend \<times> network" where
  "runHealthcheck xs s = healthcheck_loop xs (healthcheck s)"

text \<open>The end of \<open>run\<close>, once the context is done: every tracked handle is closed.\<close>

definition close_connections :: "(int \<times> ptr) list \<Rightarrow> heap \<Rightarrow> heap" where
  "close_connections m h = fold (\<lambda>kv h1. snd (Close (snd kv) h1)) m h"

text \<open>
  What \<open>createConn\<close> does with the result of its dial: on an error \<open>setActive(false)\<close> and
  the wrapped error, else the socket.
\<close>

definition traffic_return :: "error + NetConn \<Rightarrow> backend \<Rightarrow> (error + NetConn) \<times> backend" where
  "traffic_return r b =
     (case r of
        Inl err \<Rightarrow> (Inl (Wrap err ''Dial()''), setActive False b)
      | Inr conn \<Rightarrow> (Inr conn, b))"

text \<open>
  The life of one backend as the interleaving of what its goroutines and callers do to it.
  The health goroutine runs concurrently with the traffic dials, so its check is two steps:
  the dial (\<open>ProbeDial\<close>), after which the result is in flight, and the \<open>setActive\<close> that
  consumes it (\<open>ProbeSet\<close>). A call of \<open>createConn\<close> is likewise a dial (\<open>TrafficDial\<close>),
  whose result joins the traffic dials in flight, and the rest of the call for one of them
  (\<open>TrafficReturn k\<close>, for the \<open>k\<close>-th in flight); \<open>CreateConn\<close> is a call that nothing
  interrupts. The other steps are registering and deregistering a handle, reading the
  count, the cancellation of the context, and the closing of the handles by \<open>run\<close>. The
  state is the backend, the store, the network, the probe result in flight, if any, and
  the traffic dials in flight. The health goroutine dials again only after it has set the
  flag, and sets the flag only after it has dialled: a step that cannot be taken leaves the
  state as it is.
\<close>

datatype b_op =
  ProbeDial | ProbeSet | TrafficDial | TrafficReturn nat | CreateConn | AddConn ptr
| DelConn ptr | GetConnCount | Cancel | RunShutdown

type_synonym b_state =
  "backend \<times> heap \<times> network \<times> (error + NetConn) option \<times> (error + NetConn) list"

fun b_step :: "b_op \<Rightarrow> b_state \<Rightarrow> b_state" where
  "b_step ProbeDial (b, h, n, None, ts) =
     (let (r, n1) = probe_dial (b, n) in (b, h, n1, Some r, ts))"
| "b_step ProbeDial (b, h, n, Some r, ts) = (b, h, n, Some r, ts)"
| "b_step ProbeSet (b, h, n, None, ts) = (b, h, n, None, ts)"
| "b_step ProbeSet (b, h, n, Some r, ts) = (probe_set r b, h, n, None, ts)"
| "b_step TrafficDial (b, h, n, pr, ts) =
     (let (r, n1) = DialContext (addr b) n in (b, h, n1, pr, ts @ [r]))"
| "b_step (TrafficReturn k) (b, h, n, pr, ts) =
     (if k < length ts
      then (snd (traffic_return (ts ! k) b), h, n, pr, take k ts @ drop (Suc k) ts)
      else (b, h, n, pr, ts))"
| "b_step CreateConn (b, h, n, pr, ts) =
     (let (r, b1, n1) = createConn (b, n) in (b1, h, n1, pr, ts))"
| "b_step (AddConn p) (b, h, n, pr, ts) =
     (let (b1, h1) = b_addConn p (b, h) in (b1, h1, n, pr, ts))"
| "b_step (DelConn p) (b, h, n, pr, ts) =
     (let (b1, h1) = b_delConn p (b, h) in (b1, h1, n, pr, ts))"
| "b_step GetConnCount (b, h, n, pr, ts) = (b, h, n, pr, ts)"
| "b_step Cancel (b, h, n, pr, ts) = (b\<lparr>b_ctx := True\<rparr>, h, n, pr, ts)"
| "b_step RunShutdown (b, h, n, pr, ts) =
     (b, close_connections (b_connections b) h, n, pr, ts)"

fun b_exec :: "b_op list \<Rightarrow> b_state \<Rightarrow> b_state" where
  "b_exec [] s = s"
| "b_exec (x # xs) s = b_exec xs (b_step x s)"

text \<open>Whether the next dial of the backend's address succeeds.\<close>

definition dial_succeeds :: "b_state \<Rightarrow> bool" where
  "dial_succeeds s =
     (case s of (b, h, n, pr, ts) \<Rightarrow>
        (case dial_outcome n (length (dialled n)) (addr b) of Inl err \<Rightarrow> False | Inr c \<Rightarrow> True))"

text \<open>Whether the health goroutine is between two checks: no probe result is in flight.\<close>

definition no_probe :: "b_state \<Rightarrow> bool" where
  "no_probe s = (case s of (b, h, n, pr, ts) \<Rightarrow> pr = None)"

text \<open>Whether a probe that dialled successfully is in flight: its \<open>setActive\<close> is still to come.\<close>

definition probe_in_flight :: "b_state \<Rightarrow> bool" where
  "probe_in_flight s =
     (case s of (b, h, n, pr, ts) \<Rightarrow>
        (case pr of None \<Rightarrow> False | Some (Inl err) \<Rightarrow> False | Some (Inr c) \<Rightarrow> True))"

text \<open>Whether some health check of the run dialled, and dialled successfully.\<close>

fun probe_succeeded :: "b_op list \<Rightarrow> b_state \<Rightarrow> bool" where
  "probe_succeeded [] s = False"
| "probe_succeeded (x # xs) s =
     ((x = ProbeDial \<and> no_probe s \<and> dial_succeeds s) \<or> probe_succeeded xs (b_step x s))"

section \<open>The frontend: construction and the connections map\<close>

datatype TCPListener = TCPListener nat

text \<open>
  \<open>f_ctx\<close> is true when the frontend's context is done; \<open>tcpListener\<close> is \<open>None\<close> for the
  nil pointer. The application pointer is the list of backends of the \<open>world\<close> below; the
  buffer pool and the logger are left out of the record.
\<close>

record frontend =
  f_ctx :: bool
  laddr :: string
  tcpListener :: "TCPListener option"
  f_connections :: "(int \<times> ptr) list"

text \<open>\<open>newFrontend\<close>; the first argument is what \<open>net.ResolveTCPAddr\<close> answers for a port.\<close>

definition newFrontend :: "(int \<Rightarrow> error + string) \<Rightarrow> bool \<Rightarrow> int \<Rightarrow> error + frontend" where
  "newFrontend ResolveTCPAddr ctx port =
     (case ResolveTCPAddr port of
        Inl err \<Rightarrow> Inl (Wrap err ''ResolveTCPAddr()'')
      | Inr a \<Rightarrow> Inr \<lparr>f_ctx = ctx, laddr = a, tcpListener = None, f_connections = []\<rparr>)"

definition f_addConn :: "ptr \<Rightarrow> frontend \<times> heap \<Rightarrow> frontend \<times> heap" where
  "f_addConn conn s =
     (case s of (f, h) \<Rightarrow>
        let h1 = (if f_ctx f then snd (Close conn h) else h) in
        (f\<lparr>f_connections := AList.update (fd (h1 conn)) conn (f_connections f)\<rparr>, h1))"

definition f_delConn :: "ptr \<Rightarrow> frontend \<times> heap \<Rightarrow> frontend \<times> heap" where
  "f_delConn conn s =
     (case s of (f, h) \<Rightarrow>
        if f_ctx f then (f, h)
        else (f\<lparr>f_connections := AList.delete (fd (h conn)) (f_connections f)\<rparr>, h))"

section \<open>The frontend: the bind loop and the accept loop\<close>

text \<open>
  What a loop does that is visible from outside: log lines (level, message, attached
  error), sleeps (in seconds) and the goroutines it starts.
\<close>

datatype level = DebugLevel | InfoLevel | ErrorLevel

datatype action =
  Log level string "error option"
| Sleep nat
| Go_listenForNewConn
| Go_handleNewConnection NetConn

text \<open>
  What the loops meet, by iteration number: whether the context is done when the loop
  polls it, what \<open>net.ListenTCP\<close> answers, what \<open>AcceptTCP\<close> answers.
\<close>

record loop_env =
  ctx_done_at :: "nat \<Rightarrow> bool"
  ListenTCP :: "nat \<Rightarrow> error + TCPListener"
  AcceptTCP :: "nat \<Rightarrow> error + NetConn"

text \<open>
  The first loop of \<open>run\<close>, from its \<open>n\<close>-th iteration on. The loop has no bound, so the
  result is an option: \<open>None\<close> when the loop never ends. It ends with \<open>False\<close> when \<open>run\<close>
  returns because the context is done, and with \<open>True\<close> when it leaves the loop with a
  listener stored.
\<close>

partial_function (option) bind_loop ::
  "loop_env \<Rightarrow> nat \<Rightarrow> frontend \<times> action list \<Rightarrow> (bool \<times> frontend \<times> action list) option" where
  "bind_loop env n s =
     (if ctx_done_at env n then Some (False, fst s, snd s)
      else
        (case ListenTCP env n of
           Inl err \<Rightarrow>
             bind_loop env (n + 1)
               (fst s, snd s @ [Log ErrorLevel ''ListenTCP()'' (Some err), Sleep 5])
         | Inr l \<Rightarrow> Some (True, (fst s)\<lparr>tcpListener := Some l\<rparr>, snd s)))"

text \<open>\<open>run\<close> up to the start of the accept loop.\<close>

definition run_start :: "loop_env \<Rightarrow> frontend \<Rightarrow> (bool \<times> frontend \<times> action list) option" where
  "run_start env f =
     (case bind_loop env 0 (f, []) of
        None \<Rightarrow> None
      | Some (bound, f1, tr) \<Rightarrow>
          if bound then Some (True, f1, tr @ [Go_listenForNewConn]) else Some (False, f1, tr))"

text \<open>\<open>strings.Contains\<close>.\<close>

definition Contains :: "string \<Rightarrow> string \<Rightarrow> bool" where
  "Contains s substr = sublist substr s"

text \<open>
  \<open>listenForNewConn\<close> from its \<open>n\<close>-th iteration on, with the actions so far; \<open>None\<close> when
  the loop never ends.
\<close>

partial_function (option) listenForNewConn ::
  "loop_env \<Rightarrow> nat \<Rightarrow> action list \<Rightarrow> action list option" where
  "listenForNewConn env n tr =
     (if ctx_done_at env n then Some tr
      else
        (case AcceptTCP env n of
           Inl err \<Rightarrow>
             if Contains (Error_text err) ''use of closed network connection'' then Some tr
             else listenForNewConn env (n + 1) (tr @ [Log InfoLevel ''AcceptTCP()'' (Some err)])
         | Inr netConn \<Rightarrow>
             listenForNewConn env (n + 1)
               (tr @ [Log DebugLevel ''accepted new connection'' None,
                      Go_handleNewConnection netConn])))"

section \<open>The application and the connection handler\<close>

text \<open>
  The state the handler works on: the store of handles with its allocation pointer, the
  application's backends in configuration order, the frontend, and the network.
\<close>

record world =
  heap :: heap
  next_ptr :: ptr
  backends :: "backend list"
  fe :: frontend
  netw :: network

definition new_ptr :: "Conn \<Rightarrow> world \<Rightarrow> ptr \<times> world" where
  "new_ptr c w = (next_ptr w, w\<lparr>heap := (heap w)(next_ptr w := c), next_ptr := next_ptr w + 1\<rparr>)"

text \<open>
  The calls \<open>c.manager.addConn(c)\<close> and \<open>c.manager.delConn(c)\<close> through the interface. A
  manager pointer always points to a backend of the application; for a position past the
  list the state is left as it is.
\<close>

fun addConn :: "connManager \<Rightarrow> ptr \<Rightarrow> world \<Rightarrow> world" where
  "addConn (BackendMgr i) p w =
     (if i < length (backends w) then
        (let (b, h) = b_addConn p (backends w ! i, heap w) in
         w\<lparr>backends := (backends w)[i := b], heap := h\<rparr>)
      else w)"
| "addConn FrontendMgr p w =
     (let (f, h) = f_addConn p (fe w, heap w) in w\<lparr>fe := f, heap := h\<rparr>)"

fun delConn :: "connManager \<Rightarrow> ptr \<Rightarrow> world \<Rightarrow> world" where
  "delConn (BackendMgr i) p w =
     (if i < length (backends w) then
        (let (b, h) = b_delConn p (backends w ! i, heap w) in
         w\<lparr>backends := (backends w)[i := b], heap := h\<rparr>)
      else w)"
| "delConn FrontendMgr p w =
     (let (f, h) = f_delConn p (fe w, heap w) in w\<lparr>fe := f, heap := h\<rparr>)"

text \<open>
  Modelled from the spec: the application's file (the \<open>application\<close> type and its method
  \<open>createRemoteConnection\<close>) is not among the source files; only its caller
  \<open>handleNewConnection\<close> is. The spec (section 4.4): take the backends whose active flag
  is true; if there is none fail with \<open>NoBackend\<close>; among them choose the one with the
  minimum connection count, the first in configuration order on a tie; dial it, and fail
  with \<open>DialError\<close> if the dial fails, without trying another backend. The caller uses
  the result as a handle whose \<open>manager\<close> is set, so the dialled socket is wrapped by
  \<open>newConn\<close> under the chosen backend.
\<close>

datatype crc_error = NoBackend | DialError error

definition active_snapshot :: "backend list \<Rightarrow> (nat \<times> backend) list" where
  "active_snapshot bs = filter (\<lambda>ib. active (snd ib)) (enumerate 0 bs)"

fun least_loaded :: "(nat \<times> backend) list \<Rightarrow> (nat \<times> backend) option" where
  "least_loaded [] = None"
| "least_loaded (x # xs) =
     (case least_loaded xs of
        None \<Rightarrow> Some x
      | Some y \<Rightarrow> if getConnCount (snd y) < getConnCount (snd x) then Some y else Some x)"

definition createRemoteConnection :: "world \<Rightarrow> (crc_error + ptr) \<times> world" where
  "createRemoteConnection w =
     (case least_loaded (active_snapshot (backends w)) of
        None \<Rightarrow> (Inl NoBackend, w)
      | Some (i, b) \<Rightarrow>
          (let (r, b1, n1) = createConn (b, netw w);
               w1 = w\<lparr>backends := (backends w)[i := b1], netw := n1\<rparr>
           in case r of
                Inl err \<Rightarrow> (Inl (DialError err), w1)
              | Inr conn \<Rightarrow> (let (p, w2) = new_ptr (newConn conn (BackendMgr i)) w1 in (Inr p, w2))))"

text \<open>
  One accepted pair: the two handles, the \<open>sync.Once\<close> of the pair (whether it has fired),
  and how many times \<open>closeAll\<close> has run.
\<close>

record pair =
  p_conn :: ptr
  p_rConn :: ptr
  closeOnce :: bool
  closeAll_runs :: nat

datatype handled = Rejected NetConn | Relaying pair

text \<open>
  \<open>handleNewConnection\<close> up to the start of the two relay goroutines. On an error of
  \<open>createRemoteConnection\<close> the accepted socket is closed and the handler returns.
\<close>

definition handleNewConnection :: "NetConn \<Rightarrow> world \<Rightarrow> handled \<times> world" where
  "handleNewConnection netConn w =
     (let (r, w1) = createRemoteConnection w in
      case r of
        Inl err \<Rightarrow> (Rejected (snd (NetConn_Close netConn)), w1)
      | Inr rConn \<Rightarrow>
          (let w2 = addConn (manager (heap w1 rConn)) rConn w1;
               (conn, w3) = new_ptr (newConn netConn FrontendMgr) w2;
               w4 = addConn (manager (heap w3 conn)) conn w3
           in (Relaying \<lparr>p_conn = conn, p_rConn = rConn, closeOnce = False, closeAll_runs = 0\<rparr>,
               w4)))"

definition closeAll :: "pair \<Rightarrow> world \<Rightarrow> world" where
  "closeAll pr w =
     (let w1 = w\<lparr>heap := snd (Close (p_conn pr) (heap w))\<rparr>;
          w2 = w1\<lparr>heap := snd (Close (p_rConn pr) (heap w1))\<rparr>;
          w3 = delConn (manager (heap w2 (p_conn pr))) (p_conn pr) w2
      in delConn (manager (heap w3 (p_rConn pr))) (p_rConn pr) w3)"

text \<open>
  The end of a relay goroutine, \<open>closeOnce.Do(closeAll)\<close>: \<open>sync.Once\<close> runs the function
  for the first caller only, and a second caller returns after the first has finished.
\<close>

definition relay_exit :: "pair \<times> world \<Rightarrow> pair \<times> world" where
  "relay_exit s =
     (case s of (pr, w) \<Rightarrow>
        if closeOnce pr then (pr, w)
        else (pr\<lparr>closeOnce := True, closeAll_runs := closeAll_runs pr + 1\<rparr>, closeAll pr w))"

text \<open>The cancellation of the context that the frontend and the backends share.\<close>

definition cancel :: "world \<Rightarrow> world" where
  "cancel w = w\<lparr>fe := (fe w)\<lparr>f_ctx := True\<rparr>, backends := map (\<lambda>b. b\<lparr>b_ctx := True\<rparr>) (backends w)\<rparr>"

text \<open>
  What \<open>run\<close> of the frontend and of every backend does once the context is done: each
  closes the handles in its connections map.
\<close>

definition shutdown :: "world \<Rightarrow> world" where
  "shutdown w =
     w\<lparr>heap := close_connections (f_connections (fe w))
                (fold (\<lambda>b h. close_connections (b_connections b) h) (backends w) (heap w))\<rparr>"

text \<open>
  What may happen to a pair from outside between two statements of its goroutines: nothing;
  the cancellation of the context; the cancellation followed by the closing of all handles
  in the maps by the \<open>run\<close> functions; or the cancellation followed by the closing of
  some handles only (those the \<open>run\<close> functions have reached so far).
\<close>

datatype interference = Undisturbed | CtxCancelled | ShutDown | Closing "ptr list"

fun interfere :: "interference \<Rightarrow> world \<Rightarrow> world" where
  "interfere Undisturbed w = w"
| "interfere CtxCancelled w = cancel w"
| "interfere ShutDown w = shutdown (cancel w)"
| "interfere (Closing ps) w = (cancel w)\<lparr>heap := fold (\<lambda>p h. snd (Close p h)) ps (heap w)\<rparr>"

text \<open>
  The points at which the goroutines of a pair can be interfered with: in the handler after
  \<open>createRemoteConnection\<close> and after the registration of the upstream handle; while the
  relay goroutines run; in \<open>closeAll\<close> after each of its first three calls; and between
  the end of \<open>closeAll\<close> and the \<open>closeOnce.Do\<close> of the second relay goroutine.
\<close>

record schedule =
  after_dial :: interference
  after_rConn_addConn :: interference
  while_relaying :: interference
  after_conn_Close :: interference
  after_rConn_Close :: interference
  after_conn_delConn :: interference
  after_closeAll :: interference

definition quiet_schedule :: schedule where
  "quiet_schedule =
     \<lparr>after_dial = Undisturbed, after_rConn_addConn = Undisturbed, while_relaying = Undisturbed,
      after_conn_Close = Undisturbed, after_rConn_Close = Undisturbed,
      after_conn_delConn = Undisturbed, after_closeAll = Undisturbed\<rparr>"

text \<open>
  \<open>handleNewConnection\<close>, \<open>closeAll\<close> and \<open>closeOnce.Do(closeAll)\<close> again, statement by
  statement, with the interference of the schedule between the statements.
\<close>

definition handleNewConnection_interleaved ::
  "schedule \<Rightarrow> NetConn \<Rightarrow> world \<Rightarrow> handled \<times> world" where
  "handleNewConnection_interleaved sch netConn w =
     (let (r, w1) = createRemoteConnection w in
      case r of
        Inl err \<Rightarrow> (Rejected (snd (NetConn_Close netConn)), w1)
      | Inr rConn \<Rightarrow>
          (let w1a = interfere (after_dial sch) w1;
               w2 = addConn (manager (heap w1a rConn)) rConn w1a;
               w2a = interfere (after_rConn_addConn sch) w2;
               (conn, w3) = new_ptr (newConn netConn FrontendMgr) w2a;
               w4 = addConn (manager (heap w3 conn)) conn w3
           in (Relaying \<lparr>p_conn = conn, p_rConn = rConn, closeOnce = False, closeAll_runs = 0\<rparr>,
               w4)))"

definition closeAll_interleaved :: "schedule \<Rightarrow> pair \<Rightarrow> world \<Rightarrow> world" where
  "closeAll_interleaved sch pr w =
     (let w1 = w\<lparr>heap := snd (Close (p_conn pr) (heap w))\<rparr>;
          w1a = interfere (after_conn_Close sch) w1;
          w2 = w1a\<lparr>heap := snd (Close (p_rConn pr) (heap w1a))\<rparr>;
          w2a = interfere (after_rConn_Close sch) w2;
          w3 = delConn (manager (heap w2a (p_conn pr))) (p_conn pr) w2a;
          w3a = interfere (after_conn_delConn sch) w3
      in delConn (manager (heap w3a (p_rConn pr))) (p_rConn pr) w3a)"

definition relay_exit_interleaved :: "schedule \<Rightarrow> pair \<times> world \<Rightarrow> pair \<times> world" where
  "relay_exit_interleaved sch s =
     (case s of (pr, w) \<Rightarrow>
        if closeOnce pr then (pr, w)
        else (pr\<lparr>closeOnce := True, closeAll_runs := closeAll_runs pr + 1\<rparr>,
              closeAll_interleaved sch pr w))"

text \<open>
  The life of one accepted connection under a schedule: the handler, then the end of the
  two relay goroutines. The result is \<open>None\<close> when the handler rejected the connection.
\<close>

definition pair_life :: "schedule \<Rightarrow> NetConn \<Rightarrow> world \<Rightarrow> pair option \<times> world" where
  "pair_life sch netConn w =
     (case handleNewConnection_interleaved sch netConn w of
        (Rejected s, w1) \<Rightarrow> (None, w1)
      | (Relaying pr, w1) \<Rightarrow>
          (let s2 = relay_exit_interleaved sch (pr, interfere (while_relaying sch) w1);
               s3 = relay_exit_interleaved sch (fst s2, interfere (after_closeAll sch) (snd s2))
           in (Some (fst s3), snd s3)))"

section \<open>Vocabulary of the statements\<close>

text \<open>The test of the accept loop on an error of \<open>AcceptTCP\<close>.\<close>

definition listener_closed :: "error \<Rightarrow> bool" where
  "listener_closed err = Contains (Error_text err) ''use of closed network connection''"

text \<open>The log line and the sleep of each of the failed binds \<open>n, ..., n + k - 1\<close>.\<close>

fun failed_binds :: "loop_env \<Rightarrow> nat \<Rightarrow> nat \<Rightarrow> action list" where
  "failed_binds env n 0 = []"
| "failed_binds env n (Suc k) =
     (case ListenTCP env n of
        Inl err \<Rightarrow> [Log ErrorLevel ''ListenTCP()'' (Some err), Sleep 5] @ failed_binds env (n + 1) k
      | Inr l \<Rightarrow> [])"

text \<open>The log line of each of the failed accepts \<open>n, ..., n + k - 1\<close>.\<close>

fun other_errors :: "loop_env \<Rightarrow> nat \<Rightarrow> nat \<Rightarrow> action list" where
  "other_errors env n 0 = []"
| "other_errors env n (Suc k) =
     (case AcceptTCP env n of
        Inl err \<Rightarrow> Log InfoLevel ''AcceptTCP()'' (Some err) # other_errors env (n + 1) k
      | Inr netConn \<Rightarrow> [])"

text \<open>An action that is neither a sleep nor a log line at error level.\<close>

definition quiet :: "action \<Rightarrow> bool" where
  "quiet a = (case a of Sleep d \<Rightarrow> False | Log l m e \<Rightarrow> l \<noteq> ErrorLevel | _ \<Rightarrow> True)"

text \<open>The handles that some manager of the world holds in its connections map.\<close>

definition tracked :: "world \<Rightarrow> ptr set" where
  "tracked w =
     snd ` set (f_connections (fe w)) \<union> (\<Union>b\<in>set (backends w). snd ` set (b_connections b))"

section \<open>Example states\<close>

text \<open>Concrete sockets, managers, networks and loop environments on which the statements below are run.\<close>

definition example_sock :: "int \<Rightarrow> NetConn" where
  "example_sock k = \<lparr>Sysfd = k, close_result = None, close_calls = 0\<rparr>"

definition example_backend :: "string \<Rightarrow> bool \<Rightarrow> bool \<Rightarrow> (int \<times> ptr) list \<Rightarrow> backend" where
  "example_backend a cancelled act m =
     \<lparr>b_ctx = cancelled, addr = a, dialler_Timeout = 2, active = act, b_connections = m,
      healthcheckInterval = 5\<rparr>"

definition example_frontend :: "bool \<Rightarrow> (int \<times> ptr) list \<Rightarrow> frontend" where
  "example_frontend cancelled m = \<lparr>f_ctx = cancelled, laddr = '':7000'', tcpListener = None, f_connections = m\<rparr>"

definition example_heap :: heap where
  "example_heap = (\<lambda>p. newConn (example_sock 7) (BackendMgr 0))"

definition example_network :: "(nat \<Rightarrow> bool) \<Rightarrow> network" where
  "example_network ok =
     \<lparr>dial_outcome = (\<lambda>k a. if ok k then Inr (example_sock (9 + int k))
                             else Inl (NetError ''connect: connection refused'')),
      dialled = []\<rparr>"

definition example_world :: "bool \<Rightarrow> backend list \<Rightarrow> world" where
  "example_world cancelled bs =
     \<lparr>heap = example_heap, next_ptr = 0, backends = bs, fe = example_frontend cancelled [],
      netw = example_network (\<lambda>k. True)\<rparr>"

definition example_env :: "(nat \<Rightarrow> bool) \<Rightarrow> (nat \<Rightarrow> bool) \<Rightarrow> loop_env" where
  "example_env cancelled ok =
     \<lparr>ctx_done_at = cancelled,
      ListenTCP = (\<lambda>j. if ok j then Inr (TCPListener 3)
                        else Inl (NetError ''listen tcp :7000: bind: address already in use'')),
      AcceptTCP = (\<lambda>j. if ok j then Inl (NetError ''accept tcp [::]:7000: use of closed network connection'')
                        else Inl (NetError ''accept tcp [::]:7000: accept4: too many open files''))\<rparr>"

definition example_backends :: "backend list" where
  "example_backends =
     [example_backend ''10.0.0.1:9000'' False True [(4, 0), (5, 1)],
      example_backend ''10.0.0.2:9000'' False False [],
      example_backend ''10.0.0.3:9000'' False True [(6, 2)],
      example_backend ''10.0.0.4:9000'' False True [(8, 3)]]"

section \<open>Auxiliary facts: the connection handle\<close>

lemma Conn_Close_open:
  "\<not> closed c \<Longrightarrow>
   Conn_Close c =
     (close_result (net_Conn c),
      c\<lparr>closed := True, net_Conn := (net_Conn c)\<lparr>close_calls := close_calls (net_Conn c) + 1\<rparr>\<rparr>)"
  by (simp add: Conn_Close_def CompareAndSwap_def NetConn_Close_def)

lemma Conn_Close_closed: "closed c \<Longrightarrow> Conn_Close c = (None, c)"
  by (simp add: Conn_Close_def CompareAndSwap_def)

lemma Close_times_closed: "closed c \<Longrightarrow> Close_times n c = (replicate n None, c)"
  by (induction n) (simp_all add: Conn_Close_closed)

section \<open>Auxiliary facts: the backend\<close>

lemma setActive_eq: "setActive t b = b\<lparr>active := t\<rparr>"
  by (cases "active b"; cases t) (simp_all add: setActive_def CompareAndSwap_def)

lemma healthcheck_steps:
  "b_exec [ProbeDial, ProbeSet] (b, h, n, None, ts)
     = (fst (healthcheck (b, n)), h, snd (healthcheck (b, n)), None, ts)"
  by (simp add: healthcheck_def split_beta)

lemma createConn_steps:
  "b_exec [TrafficDial, TrafficReturn (length ts)] (b, h, n, pr, ts)
     = b_step CreateConn (b, h, n, pr, ts)"
  by (simp add: createConn_def traffic_return_def split_beta split: sum.splits)

lemma b_step_inactive:
  "\<not> active (fst s) \<Longrightarrow> \<not> (x = ProbeSet \<and> probe_in_flight s) \<Longrightarrow> \<not> active (fst (b_step x s))"
  by (cases "(x, s)" rule: b_step.cases)
     (auto simp: probe_dial_def probe_set_def traffic_return_def createConn_def DialContext_def
                 setActive_eq probe_in_flight_def b_addConn_def b_delConn_def Let_def
           split: sum.splits prod.splits)

lemma b_step_in_flight:
  "\<not> probe_in_flight s \<Longrightarrow> \<not> (x = ProbeDial \<and> no_probe s \<and> dial_succeeds s) \<Longrightarrow>
   \<not> probe_in_flight (b_step x s)"
  by (cases "(x, s)" rule: b_step.cases)
     (auto simp: probe_dial_def createConn_def DialContext_def dial_succeeds_def no_probe_def
                 probe_in_flight_def b_addConn_def b_delConn_def Let_def
           split: sum.splits prod.splits)

lemma b_exec_inactive:
  "\<not> active (fst s) \<Longrightarrow> \<not> probe_in_flight s \<Longrightarrow> \<not> probe_succeeded ops s \<Longrightarrow>
   \<not> active (fst (b_exec ops s))"
proof (induction ops arbitrary: s)
  case Nil
  then show ?case by simp
next
  case (Cons x xs)
  from Cons.prems have a: "\<not> active (fst (b_step x s))"
    by (intro b_step_inactive) auto
  from Cons.prems have f: "\<not> probe_in_flight (b_step x s)"
    by (intro b_step_in_flight) auto
  from Cons.prems have "\<not> probe_succeeded xs (b_step x s)" by simp
  with a f show ?case using Cons.IH by simp
qed

section \<open>Auxiliary facts: the bind loop\<close>

lemma bind_loop_done:
  "ctx_done_at env n \<Longrightarrow> bind_loop env n s = Some (False, fst s, snd s)"
  by (subst bind_loop.simps) simp

lemma bind_loop_fail:
  "\<not> ctx_done_at env n \<Longrightarrow> ListenTCP env n = Inl err \<Longrightarrow>
   bind_loop env n s =
     bind_loop env (n + 1) (fst s, snd s @ [Log ErrorLevel ''ListenTCP()'' (Some err), Sleep 5])"
  by (subst bind_loop.simps) simp

lemma bind_loop_bound:
  "\<not> ctx_done_at env n \<Longrightarrow> ListenTCP env n = Inr l \<Longrightarrow>
   bind_loop env n s = Some (True, (fst s)\<lparr>tcpListener := Some l\<rparr>, snd s)"
  by (subst bind_loop.simps) simp

lemma bind_loop_retry:
  "(\<forall>j<k. \<not> ctx_done_at env (n + j) \<and> isl (ListenTCP env (n + j))) \<Longrightarrow>
   bind_loop env n (f, tr) = bind_loop env (n + k) (f, tr @ failed_binds env n k)"
proof (induction k arbitrary: n tr)
  case 0
  then show ?case by simp
next
  case (Suc k)
  from Suc.prems have a: "\<not> ctx_done_at env n" and b: "isl (ListenTCP env n)"
    by (metis add.right_neutral zero_less_Suc)+
  from b obtain err where e: "ListenTCP env n = Inl err" by (cases "ListenTCP env n") auto
  have c: "\<forall>j<k. \<not> ctx_done_at env (n + 1 + j) \<and> isl (ListenTCP env (n + 1 + j))"
    using Suc.prems by (metis Suc_less_eq add_Suc_right add_Suc_shift Suc_eq_plus1)
  show ?case
    using bind_loop_fail [OF a e, of "(f, tr)"] Suc.IH [OF c] by (simp add: e)
qed

lemma bind_loop_result:
  assumes "bind_loop env n s = Some r"
  shows "\<exists>m\<ge>n. (\<forall>j<m. n \<le> j \<longrightarrow> \<not> ctx_done_at env j \<and> isl (ListenTCP env j)) \<and>
      (if ctx_done_at env m then r = (False, fst s, snd s @ failed_binds env n (m - n))
       else \<exists>l. ListenTCP env m = Inr l \<and>
              r = (True, (fst s)\<lparr>tcpListener := Some l\<rparr>, snd s @ failed_binds env n (m - n)))"
proof (rule bind_loop.raw_induct [OF _ assms, where P = "\<lambda>env n s r.
    \<exists>m\<ge>n. (\<forall>j<m. n \<le> j \<longrightarrow> \<not> ctx_done_at env j \<and> isl (ListenTCP env j)) \<and>
      (if ctx_done_at env m then r = (False, fst s, snd s @ failed_binds env n (m - n))
       else \<exists>l. ListenTCP env m = Inr l \<and>
              r = (True, (fst s)\<lparr>tcpListener := Some l\<rparr>, snd s @ failed_binds env n (m - n)))"])
  fix loop env n s r
  assume IH: "\<And>n s b y. loop n s b = Some y \<Longrightarrow>
    \<exists>m\<ge>s. (\<forall>j<m. s \<le> j \<longrightarrow> \<not> ctx_done_at n j \<and> isl (ListenTCP n j)) \<and>
      (if ctx_done_at n m then y = (False, fst b, snd b @ failed_binds n s (m - s))
       else \<exists>l. ListenTCP n m = Inr l \<and>
              y = (True, (fst b)\<lparr>tcpListener := Some l\<rparr>, snd b @ failed_binds n s (m - s)))"
  assume step: "(if ctx_done_at env n then Some (False, fst s, snd s)
      else case ListenTCP env n of
           Inl err \<Rightarrow> loop env (n + 1) (fst s, snd s @ [Log ErrorLevel ''ListenTCP()'' (Some err), Sleep 5])
         | Inr l \<Rightarrow> Some (True, (fst s)\<lparr>tcpListener := Some l\<rparr>, snd s)) = Some r"
  show "\<exists>m\<ge>n. (\<forall>j<m. n \<le> j \<longrightarrow> \<not> ctx_done_at env j \<and> isl (ListenTCP env j)) \<and>
      (if ctx_done_at env m then r = (False, fst s, snd s @ failed_binds env n (m - n))
       else \<exists>l. ListenTCP env m = Inr l \<and>
              r = (True, (fst s)\<lparr>tcpListener := Some l\<rparr>, snd s @ failed_binds env n (m - n)))"
  proof (cases "ctx_done_at env n")
    case True
    with step show ?thesis by (intro exI [of _ n]) auto
  next
    case nd: False
    show ?thesis
    proof (cases "ListenTCP env n")
      case (Inr l)
      with nd step show ?thesis by (intro exI [of _ n]) auto
    next
      case (Inl err)
      let ?tr = "snd s @ [Log ErrorLevel ''ListenTCP()'' (Some err), Sleep 5]"
      from Inl nd step have "loop env (n + 1) (fst s, ?tr) = Some r"
        by simp
      from IH [OF this] have "\<exists>m. m \<ge> n + 1 \<and>
        (\<forall>j<m. n + 1 \<le> j \<longrightarrow> \<not> ctx_done_at env j \<and> isl (ListenTCP env j)) \<and>
        (if ctx_done_at env m then r = (False, fst s, ?tr @ failed_binds env (n + 1) (m - (n + 1)))
         else \<exists>l. ListenTCP env m = Inr l \<and>
           r = (True, (fst s)\<lparr>tcpListener := Some l\<rparr>, ?tr @ failed_binds env (n + 1) (m - (n + 1))))"
        by (simp only: fst_conv snd_conv)
      then obtain m where m: "m \<ge> n + 1"
        "\<forall>j<m. n + 1 \<le> j \<longrightarrow> \<not> ctx_done_at env j \<and> isl (ListenTCP env j)"
        "if ctx_done_at env m then r = (False, fst s, ?tr @ failed_binds env (n + 1) (m - (n + 1)))
         else \<exists>l. ListenTCP env m = Inr l \<and>
           r = (True, (fst s)\<lparr>tcpListener := Some l\<rparr>, ?tr @ failed_binds env (n + 1) (m - (n + 1)))"
        by blast
      from m(1) have mn: "m - n = Suc (m - (n + 1))" by simp
      have tr: "snd s @ failed_binds env n (m - n) = ?tr @ failed_binds env (n + 1) (m - (n + 1))"
        unfolding mn by (simp add: Inl)
      have "\<forall>j<m. n \<le> j \<longrightarrow> \<not> ctx_done_at env j \<and> isl (ListenTCP env j)"
      proof (intro allI impI)
        fix j assume "j < m" "n \<le> j"
        show "\<not> ctx_done_at env j \<and> isl (ListenTCP env j)"
        proof (cases "j = n")
          case True then show ?thesis using nd Inl by simp
        next
          case False
          with \<open>n \<le> j\<close> have "n + 1 \<le> j" by simp
          with m(2) \<open>j < m\<close> show ?thesis by blast
        qed
      qed
      moreover have "n \<le> m" using m(1) by simp
      moreover have "if ctx_done_at env m then r = (False, fst s, snd s @ failed_binds env n (m - n))
         else \<exists>l. ListenTCP env m = Inr l \<and>
           r = (True, (fst s)\<lparr>tcpListener := Some l\<rparr>, snd s @ failed_binds env n (m - n))"
        using m(3) by (simp only: tr)
      ultimately show ?thesis by blast
    qed
  qed
qed

lemma bind_loop_forever:
  assumes "\<forall>j. \<not> ctx_done_at env j \<and> isl (ListenTCP env j)"
  shows "bind_loop env n s = None"
proof (cases "bind_loop env n s")
  case None then show ?thesis .
next
  case (Some r)
  from bind_loop_result [OF Some] obtain m where
    "if ctx_done_at env m then r = (False, fst s, snd s @ failed_binds env n (m - n))
       else \<exists>l. ListenTCP env m = Inr l \<and>
              r = (True, (fst s)\<lparr>tcpListener := Some l\<rparr>, snd s @ failed_binds env n (m - n))"
    by blast
  with assms show ?thesis by (metis sum.disc(2))
qed

lemma bind_loop_returns:
  assumes "ctx_done_at env m \<or> \<not> isl (ListenTCP env m)" and "n \<le> m"
  shows "bind_loop env n s \<noteq> None"
  using assms
proof (induction "m - n" arbitrary: n s)
  case 0
  then have "m = n" by simp
  with 0 show ?case
    by (subst bind_loop.simps) (auto split: sum.splits)
next
  case (Suc d)
  then have "Suc n \<le> m" "d = m - Suc n" by auto
  from Suc.hyps(1) [OF this(2) Suc.prems(1) this(1)] show ?case
    by (subst bind_loop.simps) (auto split: sum.splits)
qed

lemma failed_binds_no_go: "Go_listenForNewConn \<notin> set (failed_binds env n k)"
  by (induction k arbitrary: n) (auto split: sum.splits)

lemma run_start_result:
  assumes "run_start env f = Some r"
  shows "if fst r
         then \<exists>l tr. r = (True, f\<lparr>tcpListener := Some l\<rparr>, tr @ [Go_listenForNewConn])
                \<and> Go_listenForNewConn \<notin> set tr
         else fst (snd r) = f \<and> Go_listenForNewConn \<notin> set (snd (snd r))"
proof -
  from assms obtain r0 where r0: "bind_loop env 0 (f, []) = Some r0"
    by (auto simp: run_start_def split: option.splits)
  from bind_loop_result [OF r0] have "\<exists>m.
        if ctx_done_at env m then r0 = (False, f, failed_binds env 0 m)
        else \<exists>l. ListenTCP env m = Inr l \<and>
               r0 = (True, f\<lparr>tcpListener := Some l\<rparr>, failed_binds env 0 m)"
    by (simp only: fst_conv snd_conv diff_zero append_Nil) blast
  then obtain m where
    m: "if ctx_done_at env m then r0 = (False, f, failed_binds env 0 m)
        else \<exists>l. ListenTCP env m = Inr l \<and>
               r0 = (True, f\<lparr>tcpListener := Some l\<rparr>, failed_binds env 0 m)"
    by blast
  show ?thesis
  proof (cases "ctx_done_at env m")
    case True
    with m have "r0 = (False, f, failed_binds env 0 m)" by simp
    with assms r0 have "r = (False, f, failed_binds env 0 m)"
      by (simp add: run_start_def)
    then show ?thesis by (simp add: failed_binds_no_go)
  next
    case False
    with m obtain l where "r0 = (True, f\<lparr>tcpListener := Some l\<rparr>, failed_binds env 0 m)"
      by auto
    with assms r0 have "r = (True, f\<lparr>tcpListener := Some l\<rparr>,
        failed_binds env 0 m @ [Go_listenForNewConn])"
      by (simp add: run_start_def)
    then show ?thesis using failed_binds_no_go [of env 0 m] by auto
  qed
qed

section \<open>Auxiliary facts: the accept loop\<close>

lemma accept_closed:
  "\<not> ctx_done_at env n \<Longrightarrow> AcceptTCP env n = Inl err \<Longrightarrow> listener_closed err \<Longrightarrow>
   listenForNewConn env n tr = Some tr"
  by (subst listenForNewConn.simps) (simp add: listener_closed_def)

lemma accept_other:
  "\<not> ctx_done_at env n \<Longrightarrow> AcceptTCP env n = Inl err \<Longrightarrow> \<not> listener_closed err \<Longrightarrow>
   listenForNewConn env n tr =
     listenForNewConn env (n + 1) (tr @ [Log InfoLevel ''AcceptTCP()'' (Some err)])"
  by (subst listenForNewConn.simps) (simp add: listener_closed_def)

lemma accept_retry:
  "(\<forall>j<k. \<not> ctx_done_at env (n + j)
       \<and> (\<exists>err. AcceptTCP env (n + j) = Inl err \<and> \<not> listener_closed err)) \<Longrightarrow>
   listenForNewConn env n tr = listenForNewConn env (n + k) (tr @ other_errors env n k)"
proof (induction k arbitrary: n tr)
  case 0
  then show ?case by simp
next
  case (Suc k)
  from Suc.prems [rule_format, of 0] obtain err where
    a: "\<not> ctx_done_at env n" and e: "AcceptTCP env n = Inl err" and o: "\<not> listener_closed err"
    by auto
  have c: "\<forall>j<k. \<not> ctx_done_at env (n + 1 + j)
       \<and> (\<exists>err. AcceptTCP env (n + 1 + j) = Inl err \<and> \<not> listener_closed err)"
  proof (intro allI impI)
    fix j assume "j < k"
    then have "Suc j < Suc k" by simp
    from Suc.prems [rule_format, OF this]
    show "\<not> ctx_done_at env (n + 1 + j)
       \<and> (\<exists>err. AcceptTCP env (n + 1 + j) = Inl err \<and> \<not> listener_closed err)"
      by simp
  qed
  show ?case
    using accept_other [OF a e o, of tr] Suc.IH [OF c, of "tr @ [Log InfoLevel ''AcceptTCP()'' (Some err)]"]
    by (simp add: e)
qed

lemma accept_result:
  assumes "listenForNewConn env n tr = Some tr'"
  shows "\<exists>ext. tr' = tr @ ext \<and> list_all quiet ext"
proof (rule listenForNewConn.raw_induct [OF _ assms,
        where P = "\<lambda>env n tr tr'. \<exists>ext. tr' = tr @ ext \<and> list_all quiet ext"])
  fix loop :: "loop_env \<Rightarrow> nat \<Rightarrow> action list \<Rightarrow> action list option"
  fix env n tr tr'
  assume IH: "\<And>e m t y. loop e m t = Some y \<Longrightarrow> \<exists>ext. y = t @ ext \<and> list_all quiet ext"
  assume step: "(if ctx_done_at env n then Some tr
      else case AcceptTCP env n of
           Inl err \<Rightarrow>
             if Contains (Error_text err) ''use of closed network connection'' then Some tr
             else loop env (n + 1) (tr @ [Log InfoLevel ''AcceptTCP()'' (Some err)])
         | Inr netConn \<Rightarrow>
             loop env (n + 1)
               (tr @ [Log DebugLevel ''accepted new connection'' None,
                      Go_handleNewConnection netConn])) = Some tr'"
  show "\<exists>ext. tr' = tr @ ext \<and> list_all quiet ext"
  proof (cases "ctx_done_at env n")
    case True
    with step show ?thesis by simp
  next
    case nd: False
    show ?thesis
    proof (cases "AcceptTCP env n")
      case (Inr netConn)
      with nd step have "loop env (n + 1)
               (tr @ [Log DebugLevel ''accepted new connection'' None,
                      Go_handleNewConnection netConn]) = Some tr'" by simp
      from IH [OF this] obtain ext where
        "tr' = (tr @ [Log DebugLevel ''accepted new connection'' None,
                      Go_handleNewConnection netConn]) @ ext" "list_all quiet ext" by blast
      then have "tr' = tr @ ([Log DebugLevel ''accepted new connection'' None,
                      Go_handleNewConnection netConn] @ ext)
          \<and> list_all quiet ([Log DebugLevel ''accepted new connection'' None,
                      Go_handleNewConnection netConn] @ ext)"
        by (simp add: quiet_def)
      then show ?thesis by blast
    next
      case (Inl err)
      show ?thesis
      proof (cases "Contains (Error_text err) ''use of closed network connection''")
        case True
        with nd Inl step show ?thesis by simp
      next
        case False
        with nd Inl step have "loop env (n + 1) (tr @ [Log InfoLevel ''AcceptTCP()'' (Some err)]) = Some tr'"
          by simp
        from IH [OF this] obtain ext where
          "tr' = (tr @ [Log InfoLevel ''AcceptTCP()'' (Some err)]) @ ext" "list_all quiet ext" by blast
        then have "tr' = tr @ ([Log InfoLevel ''AcceptTCP()'' (Some err)] @ ext)
            \<and> list_all quiet ([Log InfoLevel ''AcceptTCP()'' (Some err)] @ ext)"
          by (simp add: quiet_def)
        then show ?thesis by blast
      qed
    qed
  qed
qed

section \<open>Auxiliary facts: the choice of a backend\<close>

lemma least_loaded_None: "least_loaded xs = None \<longleftrightarrow> xs = []"
  by (cases xs) (auto split: option.splits)

lemma least_loaded_first:
  "least_loaded xs = Some y \<Longrightarrow>
   \<exists>ps ss. xs = ps @ y # ss
     \<and> (\<forall>x\<in>set ps. getConnCount (snd y) < getConnCount (snd x))
     \<and> (\<forall>x\<in>set ss. getConnCount (snd y) \<le> getConnCount (snd x))"
proof (induction xs arbitrary: y)
  case Nil
  then show ?case by simp
next
  case (Cons x xs)
  show ?case
  proof (cases "least_loaded xs")
    case None
    then have "xs = []" by (simp add: least_loaded_None)
    with Cons.prems None show ?thesis by (intro exI [of _ "[]"]) auto
  next
    case (Some z)
    from Cons.IH [OF Some] obtain ps ss where z: "xs = ps @ z # ss"
      "\<forall>x\<in>set ps. getConnCount (snd z) < getConnCount (snd x)"
      "\<forall>x\<in>set ss. getConnCount (snd z) \<le> getConnCount (snd x)"
      by blast
    show ?thesis
    proof (cases "getConnCount (snd z) < getConnCount (snd x)")
      case True
      with Cons.prems Some have "y = z" by simp
      with z True have "x # xs = (x # ps) @ y # ss
        \<and> (\<forall>x\<in>set (x # ps). getConnCount (snd y) < getConnCount (snd x))
        \<and> (\<forall>x\<in>set ss. getConnCount (snd y) \<le> getConnCount (snd x))"
        by simp
      then show ?thesis by blast
    next
      case False
      with Cons.prems Some have y: "y = x" by simp
      from False z have "\<forall>u\<in>set xs. getConnCount (snd x) \<le> getConnCount (snd u)"
        by fastforce
      with y have "x # xs = [] @ y # xs
        \<and> (\<forall>x\<in>set []. getConnCount (snd y) < getConnCount (snd x))
        \<and> (\<forall>x\<in>set xs. getConnCount (snd y) \<le> getConnCount (snd x))"
        by simp
      then show ?thesis by blast
    qed
  qed
qed

lemma active_snapshot_set:
  "set (active_snapshot bs) = {(i, b). i < length bs \<and> b = bs ! i \<and> active b}"
  by (auto simp: active_snapshot_def in_set_enumerate_eq)

lemma active_snapshot_sorted: "sorted_wrt (\<lambda>a b. fst a < fst b) (active_snapshot bs)"
proof -
  have "sorted_wrt (\<lambda>a b. fst a < fst b) (enumerate 0 bs)"
    using sorted_wrt_map [of "(<)" fst "enumerate 0 bs"] by simp
  then show ?thesis
    unfolding active_snapshot_def by (rule sorted_wrt_filter)
qed

lemma least_loaded_snapshot:
  assumes "least_loaded (active_snapshot bs) = Some (i, b)"
  shows "i < length bs \<and> b = bs ! i \<and> active b
    \<and> (\<forall>j<length bs. active (bs ! j) \<longrightarrow> getConnCount (bs ! i) \<le> getConnCount (bs ! j))
    \<and> (\<forall>j<i. active (bs ! j) \<longrightarrow> getConnCount (bs ! i) < getConnCount (bs ! j))"
proof -
  from least_loaded_first [OF assms] obtain ps ss where
    xs: "active_snapshot bs = ps @ (i, b) # ss"
    and lt: "\<forall>x\<in>set ps. getConnCount b < getConnCount (snd x)"
    and le: "\<forall>x\<in>set ss. getConnCount b \<le> getConnCount (snd x)"
    by auto
  have mem: "(i, b) \<in> set (active_snapshot bs)" by (simp add: xs)
  then have ib: "i < length bs" "b = bs ! i" "active b"
    by (auto simp: active_snapshot_set)
  have srt: "sorted_wrt (\<lambda>a b. fst a < fst b) (ps @ (i, b) # ss)"
    using active_snapshot_sorted [of bs] by (simp add: xs)
  have after: "\<forall>x\<in>set ss. i < fst x"
    using srt by (auto simp: sorted_wrt_append)
  have a: "getConnCount (bs ! i) \<le> getConnCount (bs ! j)" if "j < length bs" "active (bs ! j)" for j
  proof -
    from that have "(j, bs ! j) \<in> set (active_snapshot bs)" by (simp add: active_snapshot_set)
    then have "(j, bs ! j) \<in> set ps \<or> (j, bs ! j) = (i, b) \<or> (j, bs ! j) \<in> set ss"
      by (auto simp: xs)
    then show ?thesis using lt le ib(2) by fastforce
  qed
  have c: "getConnCount (bs ! i) < getConnCount (bs ! j)" if "j < i" "active (bs ! j)" for j
  proof -
    from that ib(1) have "(j, bs ! j) \<in> set (active_snapshot bs)" by (simp add: active_snapshot_set)
    then have "(j, bs ! j) \<in> set ps \<or> (j, bs ! j) = (i, b) \<or> (j, bs ! j) \<in> set ss"
      by (auto simp: xs)
    moreover have "(j, bs ! j) \<noteq> (i, b)" using that(1) by simp
    moreover have "(j, bs ! j) \<notin> set ss" using after that(1) by fastforce
    ultimately have "(j, bs ! j) \<in> set ps" by blast
    with lt ib(2) show ?thesis by fastforce
  qed
  from ib a c show ?thesis by blast
qed

lemma least_loaded_snapshot_Some:
  assumes "\<exists>b\<in>set bs. active b"
  shows "\<exists>i b. least_loaded (active_snapshot bs) = Some (i, b)"
proof -
  from assms obtain j where "j < length bs" "active (bs ! j)"
    by (auto simp: in_set_conv_nth)
  then have "(j, bs ! j) \<in> set (active_snapshot bs)" by (simp add: active_snapshot_set)
  then have "active_snapshot bs \<noteq> []" by auto
  then have "least_loaded (active_snapshot bs) \<noteq> None" by (simp add: least_loaded_None)
  then show ?thesis by auto
qed

lemma createRemoteConnection_chosen:
  assumes "least_loaded (active_snapshot (backends w)) = Some (i, b)"
  shows "dialled (netw (snd (createRemoteConnection w))) = dialled (netw w) @ [addr (backends w ! i)]
     \<and> (case fst (createRemoteConnection w) of
          Inl e \<Rightarrow> e \<noteq> NoBackend
        | Inr p \<Rightarrow> manager (heap (snd (createRemoteConnection w)) p) = BackendMgr i)"
proof -
  from least_loaded_snapshot [OF assms] have b: "b = backends w ! i" by simp
  show ?thesis
    using assms
    by (simp add: createRemoteConnection_def createConn_def DialContext_def new_ptr_def newConn_def
          b Let_def split: sum.splits prod.splits)
qed

lemma active_snapshot_empty:
  "\<forall>b\<in>set bs. \<not> active b \<Longrightarrow> active_snapshot bs = []"
  by (auto simp: active_snapshot_def filter_empty_conv in_set_enumerate_eq)

section \<open>Auxiliary facts: the handler and the teardown\<close>

lemma Conn_Close_keeps: "fd (snd (Conn_Close c)) = fd c" "manager (snd (Conn_Close c)) = manager c"
  by (simp_all add: Conn_Close_def CompareAndSwap_def NetConn_Close_def split: prod.splits)

lemma Conn_Close_closes:
  "closed (snd (Conn_Close c))"
  "close_calls (net_Conn (snd (Conn_Close c)))
     = (if closed c then close_calls (net_Conn c) else close_calls (net_Conn c) + 1)"
  by (simp_all add: Conn_Close_def CompareAndSwap_def NetConn_Close_def split: prod.splits)

lemma Conn_Close_twice: "snd (Conn_Close (snd (Conn_Close c))) = snd (Conn_Close c)"
  by (simp add: Conn_Close_closed Conn_Close_closes(1))

lemma snd_Close: "snd (Close p h) = h(p := snd (Conn_Close (h p)))"
  by (simp add: Close_def split_beta)

lemma handleNewConnection_Relaying:
  assumes "handleNewConnection netConn w = (Relaying pr, w1)"
  shows "\<exists>i rs. i < length (backends w)
    \<and> pr = \<lparr>p_conn = next_ptr w + 1, p_rConn = next_ptr w, closeOnce = False, closeAll_runs = 0\<rparr>
    \<and> dial_outcome (netw w) (length (dialled (netw w))) (addr (backends w ! i)) = Inr rs
    \<and> heap w1 = (heap w)
         (next_ptr w := (if b_ctx (backends w ! i) then snd (Conn_Close (newConn rs (BackendMgr i)))
                         else newConn rs (BackendMgr i)),
          next_ptr w + 1 := (if f_ctx (fe w) then snd (Conn_Close (newConn netConn FrontendMgr))
                             else newConn netConn FrontendMgr))
    \<and> fe w1 = (fe w)\<lparr>f_connections :=
          AList.update (Sysfd netConn) (next_ptr w + 1) (f_connections (fe w))\<rparr>
    \<and> backends w1 = (backends w)[i := (backends w ! i)\<lparr>b_connections :=
          AList.update (Sysfd rs) (next_ptr w) (b_connections (backends w ! i))\<rparr>]"
proof (cases "least_loaded (active_snapshot (backends w))")
  case None
  with assms show ?thesis
    by (simp add: handleNewConnection_def createRemoteConnection_def)
next
  case (Some ib)
  obtain i b where ib: "ib = (i, b)" by (cases ib)
  from least_loaded_snapshot [OF Some [unfolded ib]]
  have i: "i < length (backends w)" and b: "b = backends w ! i" by simp_all
  show ?thesis
  proof (cases "dial_outcome (netw w) (length (dialled (netw w))) (addr (backends w ! i))")
    case (Inl err)
    with assms Some ib b show ?thesis
      by (simp add: handleNewConnection_def createRemoteConnection_def createConn_def
            DialContext_def)
  next
    case (Inr rs)
    have crc: "createRemoteConnection w =
        (Inr (next_ptr w),
         w\<lparr>netw := (netw w)\<lparr>dialled := dialled (netw w) @ [addr (backends w ! i)]\<rparr>,
           heap := (heap w)(next_ptr w := newConn rs (BackendMgr i)),
           next_ptr := next_ptr w + 1\<rparr>)"
      using Some ib b Inr
      by (simp add: createRemoteConnection_def createConn_def DialContext_def new_ptr_def)
    have "pr = \<lparr>p_conn = next_ptr w + 1, p_rConn = next_ptr w, closeOnce = False, closeAll_runs = 0\<rparr>
      \<and> heap w1 = (heap w)
         (next_ptr w := (if b_ctx (backends w ! i) then snd (Conn_Close (newConn rs (BackendMgr i)))
                         else newConn rs (BackendMgr i)),
          next_ptr w + 1 := (if f_ctx (fe w) then snd (Conn_Close (newConn netConn FrontendMgr))
                             else newConn netConn FrontendMgr))
      \<and> fe w1 = (fe w)\<lparr>f_connections :=
          AList.update (Sysfd netConn) (next_ptr w + 1) (f_connections (fe w))\<rparr>
      \<and> backends w1 = (backends w)[i := (backends w ! i)\<lparr>b_connections :=
          AList.update (Sysfd rs) (next_ptr w) (b_connections (backends w ! i))\<rparr>]"
      using assms i
      by (auto simp: handleNewConnection_def crc new_ptr_def b_addConn_def f_addConn_def snd_Close
            Conn_Close_keeps newConn_def fdFromConn_def Let_def)
    with i Inr show ?thesis by blast
  qed
qed

lemma ran_delete_update:
  "snd ` set (AList.delete k (AList.update k v m)) \<subseteq> snd ` set m"
proof -
  have "set (AList.delete k m) \<subseteq> set m"
    by (auto simp: AList.delete_eq)
  then show ?thesis
    by (simp add: delete_update_same image_mono)
qed

lemma ran_delete: "snd ` set (AList.delete k m) \<subseteq> snd ` set m"
  by (auto simp: AList.delete_eq)

lemma ran_update: "snd ` set (AList.update k v m) \<subseteq> insert v (snd ` set m)"
  by (induction m) auto

lemma close_connections_at:
  "close_connections m h x = (if x \<in> snd ` set m then snd (Conn_Close (h x)) else h x)"
proof (induction m arbitrary: h)
  case Nil
  then show ?case by (simp add: close_connections_def)
next
  case (Cons kv m)
  have "close_connections (kv # m) h x
      = close_connections m (h(snd kv := snd (Conn_Close (h (snd kv))))) x"
    by (simp add: close_connections_def snd_Close)
  then show ?case
    by (simp add: Cons.IH Conn_Close_twice)
qed

lemma close_connections_Close:
  "snd (Conn_Close (close_connections m h x)) = snd (Conn_Close (h x))"
  by (simp add: close_connections_at Conn_Close_twice)

lemma fold_close_connections_Close:
  "snd (Conn_Close (fold (\<lambda>b h. close_connections (b_connections b) h) bs h x))
     = snd (Conn_Close (h x))"
  by (induction bs arbitrary: h) (simp_all add: close_connections_Close)

lemma fold_Close_Close:
  "snd (Conn_Close (fold (\<lambda>p h. snd (Close p h)) ps h x)) = snd (Conn_Close (h x))"
  by (induction ps arbitrary: h) (simp_all add: snd_Close Conn_Close_twice)

lemma Close_closed: "closed (h x) \<Longrightarrow> snd (Close y h) x = h x"
  by (auto simp: snd_Close Conn_Close_closed)

lemma fold_Close_closed:
  "closed (h x) \<Longrightarrow> fold (\<lambda>p h. snd (Close p h)) ps h x = h x"
proof (induction ps arbitrary: h)
  case Nil
  then show ?case by simp
next
  case (Cons a ps)
  from Cons.prems have e: "snd (Close a h) x = h x" by (rule Close_closed)
  with Cons.prems have "closed (snd (Close a h) x)" by simp
  with Cons.IH [of "snd (Close a h)"] e show ?case by simp
qed

lemma interfere_Close:
  "snd (Conn_Close (heap (interfere e w) x)) = snd (Conn_Close (heap w x))"
  by (cases e)
     (simp_all add: cancel_def shutdown_def close_connections_Close fold_close_connections_Close
        fold_Close_Close)

lemma interfere_keeps:
  "manager (heap (interfere e w) x) = manager (heap w x)"
  "fd (heap (interfere e w) x) = fd (heap w x)"
  by (metis Conn_Close_keeps interfere_Close)+

lemma interfere_closed:
  assumes "closed (heap w x)"
  shows "heap (interfere e w) x = heap w x"
proof -
  have c: "closed (fold (\<lambda>b h. close_connections (b_connections b) h) bs h x)
         \<and> fold (\<lambda>b h. close_connections (b_connections b) h) bs h x = h x"
    if "closed (h x)" for bs h
    using that
    by (induction bs arbitrary: h) (simp_all add: close_connections_at Conn_Close_closed)
  show ?thesis
    using assms c [of "heap w" "map (\<lambda>b. b\<lparr>b_ctx := True\<rparr>) (backends w)"]
    by (cases e)
       (simp_all add: cancel_def shutdown_def close_connections_at Conn_Close_closed
          fold_Close_closed)
qed

lemma interfere_maps:
  "f_connections (fe (interfere e w)) = f_connections (fe w)"
  "map b_connections (backends (interfere e w)) = map b_connections (backends w)"
  "length (backends (interfere e w)) = length (backends w)"
  "next_ptr (interfere e w) = next_ptr w"
  by (cases e; simp add: cancel_def shutdown_def comp_def)+

lemma tracked_maps:
  assumes "f_connections (fe v) = f_connections (fe w)"
    and "map b_connections (backends v) = map b_connections (backends w)"
  shows "tracked v = tracked w"
proof -
  have "(\<Union>b\<in>set (backends v). snd ` set (b_connections b))
      = (\<Union>m\<in>set (map b_connections (backends v)). snd ` set m)"
    by simp
  also have "\<dots> = (\<Union>m\<in>set (map b_connections (backends w)). snd ` set m)"
    by (simp only: assms(2))
  also have "\<dots> = (\<Union>b\<in>set (backends w). snd ` set (b_connections b))"
    by simp
  finally show ?thesis
    by (simp add: tracked_def assms(1))
qed

lemma tracked_interfere: "tracked (interfere e w) = tracked w"
  by (rule tracked_maps) (rule interfere_maps)+

lemma tracked_heap: "tracked (w\<lparr>heap := h\<rparr>) = tracked w"
  by (simp add: tracked_def)

lemma heap_delConn: "heap (delConn m x w) = heap w"
  by (cases m) (simp_all add: b_delConn_def f_delConn_def Let_def)

lemma addConn_keeps:
  "snd (Conn_Close (heap (addConn m x w) y)) = snd (Conn_Close (heap w y))"
  "next_ptr (addConn m x w) = next_ptr w"
  by (cases m; simp add: b_addConn_def f_addConn_def Let_def snd_Close Conn_Close_twice)+

lemma tracked_list_update:
  assumes "i < length bs" and "snd ` set (b_connections b) \<subseteq> A \<union> snd ` set (b_connections (bs ! i))"
  shows "(\<Union>c\<in>set (bs[i := b]). snd ` set (b_connections c))
           \<subseteq> A \<union> (\<Union>c\<in>set bs. snd ` set (b_connections c))"
proof
  fix x assume "x \<in> (\<Union>c\<in>set (bs[i := b]). snd ` set (b_connections c))"
  then obtain c where c: "c \<in> set (bs[i := b])" "x \<in> snd ` set (b_connections c)" by blast
  from c(1) have "c = b \<or> c \<in> set bs"
    using set_update_subset_insert [of bs i b] by blast
  then show "x \<in> A \<union> (\<Union>c\<in>set bs. snd ` set (b_connections c))"
  proof
    assume "c = b"
    with c(2) assms(2) have "x \<in> A \<or> x \<in> snd ` set (b_connections (bs ! i))" by blast
    moreover have "bs ! i \<in> set bs" using assms(1) by simp
    ultimately show ?thesis by blast
  next
    assume "c \<in> set bs"
    with c(2) show ?thesis by blast
  qed
qed

lemma tracked_delConn: "tracked (delConn m x w) \<subseteq> tracked w"
proof (cases m)
  case FrontendMgr
  then show ?thesis
    using ran_delete [of "fd (heap w x)" "f_connections (fe w)"]
    by (auto simp: tracked_def f_delConn_def)
next
  case (BackendMgr i)
  show ?thesis
  proof (cases "i < length (backends w) \<and> \<not> b_ctx (backends w ! i)")
    case False
    then show ?thesis
      by (auto simp: BackendMgr b_delConn_def tracked_def)
  next
    case True
    let ?b = "(backends w ! i)\<lparr>b_connections :=
        AList.delete (fd (heap w x)) (b_connections (backends w ! i))\<rparr>"
    have w: "delConn m x w = w\<lparr>backends := (backends w)[i := ?b], heap := heap w\<rparr>"
      using True by (simp add: BackendMgr b_delConn_def)
    have "snd ` set (b_connections ?b) \<subseteq> {} \<union> snd ` set (b_connections (backends w ! i))"
      using ran_delete [of "fd (heap w x)" "b_connections (backends w ! i)"] by simp
    from tracked_list_update [OF conjunct1 [OF True] this]
    show ?thesis by (auto simp: w tracked_def)
  qed
qed

lemma handleNewConnection_interleaved_quiet:
  "after_dial sch = Undisturbed \<Longrightarrow> after_rConn_addConn sch = Undisturbed \<Longrightarrow>
   handleNewConnection_interleaved sch netConn w = handleNewConnection netConn w"
  by (auto simp: handleNewConnection_interleaved_def handleNewConnection_def Let_def
        split: prod.splits sum.splits)

lemma closeAll_interleaved_quiet: "closeAll_interleaved quiet_schedule pr w = closeAll pr w"
  by (simp add: closeAll_interleaved_def closeAll_def quiet_schedule_def)

lemma relay_exit_interleaved_quiet: "relay_exit_interleaved quiet_schedule s = relay_exit s"
  by (cases s) (simp add: relay_exit_interleaved_def relay_exit_def closeAll_interleaved_quiet)

lemma handleNewConnection_interleaved_Relaying:
  assumes "handleNewConnection_interleaved sch netConn w = (Relaying pr, w1)"
  shows "\<exists>i rs. i < length (backends w)
    \<and> pr = \<lparr>p_conn = next_ptr w + 1, p_rConn = next_ptr w, closeOnce = False, closeAll_runs = 0\<rparr>
    \<and> dial_outcome (netw w) (length (dialled (netw w))) (addr (backends w ! i)) = Inr rs
    \<and> snd (Conn_Close (heap w1 (next_ptr w))) = snd (Conn_Close (newConn rs (BackendMgr i)))
    \<and> snd (Conn_Close (heap w1 (next_ptr w + 1)))
        = snd (Conn_Close (newConn netConn FrontendMgr))"
proof (cases "least_loaded (active_snapshot (backends w))")
  case None
  with assms show ?thesis
    by (simp add: handleNewConnection_interleaved_def createRemoteConnection_def)
next
  case (Some ib)
  obtain i b where ib: "ib = (i, b)" by (cases ib)
  from least_loaded_snapshot [OF Some [unfolded ib]]
  have i: "i < length (backends w)" and b: "b = backends w ! i" by simp_all
  show ?thesis
  proof (cases "dial_outcome (netw w) (length (dialled (netw w))) (addr (backends w ! i))")
    case (Inl err)
    with assms Some ib b show ?thesis
      by (simp add: handleNewConnection_interleaved_def createRemoteConnection_def createConn_def
            DialContext_def)
  next
    case (Inr rs)
    have crc: "createRemoteConnection w =
        (Inr (next_ptr w),
         w\<lparr>netw := (netw w)\<lparr>dialled := dialled (netw w) @ [addr (backends w ! i)]\<rparr>,
           heap := (heap w)(next_ptr w := newConn rs (BackendMgr i)),
           next_ptr := next_ptr w + 1\<rparr>)"
      using Some ib b Inr
      by (simp add: createRemoteConnection_def createConn_def DialContext_def new_ptr_def)
    have "pr = \<lparr>p_conn = next_ptr w + 1, p_rConn = next_ptr w, closeOnce = False, closeAll_runs = 0\<rparr>
      \<and> snd (Conn_Close (heap w1 (next_ptr w))) = snd (Conn_Close (newConn rs (BackendMgr i)))
      \<and> snd (Conn_Close (heap w1 (next_ptr w + 1)))
          = snd (Conn_Close (newConn netConn FrontendMgr))"
      using assms
      by (auto simp: handleNewConnection_interleaved_def crc new_ptr_def Let_def
            addConn_keeps interfere_Close interfere_maps)
    with i Inr show ?thesis by blast
  qed
qed

lemma closeAll_interleaved_heap:
  "heap (closeAll_interleaved sch pr w) (p_conn pr) = snd (Conn_Close (heap w (p_conn pr)))"
  "heap (closeAll_interleaved sch pr w) (p_rConn pr) = snd (Conn_Close (heap w (p_rConn pr)))"
proof -
  let ?p = "p_conn pr" and ?q = "p_rConn pr"
  define w1 where "w1 = w\<lparr>heap := snd (Close ?p (heap w))\<rparr>"
  define w1a where "w1a = interfere (after_conn_Close sch) w1"
  define w2 where "w2 = w1a\<lparr>heap := snd (Close ?q (heap w1a))\<rparr>"
  define w2a where "w2a = interfere (after_rConn_Close sch) w2"
  define w3 where "w3 = delConn (manager (heap w2a ?p)) ?p w2a"
  define w3a where "w3a = interfere (after_conn_delConn sch) w3"
  have fin: "closeAll_interleaved sch pr w = delConn (manager (heap w3a ?q)) ?q w3a"
    by (simp add: closeAll_interleaved_def Let_def w1_def w1a_def w2_def w2a_def w3_def w3a_def)
  have p1: "heap w1 ?p = snd (Conn_Close (heap w ?p))"
    by (simp add: w1_def snd_Close)
  have cp1: "closed (heap w1 ?p)" unfolding p1 by (rule Conn_Close_closes(1))
  have p1a: "heap w1a ?p = snd (Conn_Close (heap w ?p))"
    unfolding w1a_def interfere_closed [OF cp1] by (rule p1)
  have cp1a: "closed (heap w1a ?p)" unfolding p1a by (rule Conn_Close_closes(1))
  have p2: "heap w2 ?p = snd (Conn_Close (heap w ?p))"
    unfolding w2_def using Close_closed [of "heap w1a" ?p ?q] cp1a p1a by simp
  have cp2: "closed (heap w2 ?p)" unfolding p2 by (rule Conn_Close_closes(1))
  have p2a: "heap w2a ?p = snd (Conn_Close (heap w ?p))"
    unfolding w2a_def interfere_closed [OF cp2] by (rule p2)
  have p3: "heap w3 ?p = snd (Conn_Close (heap w ?p))"
    by (simp add: w3_def heap_delConn p2a)
  have cp3: "closed (heap w3 ?p)" unfolding p3 by (rule Conn_Close_closes(1))
  have p3a: "heap w3a ?p = snd (Conn_Close (heap w ?p))"
    unfolding w3a_def interfere_closed [OF cp3] by (rule p3)
  show "heap (closeAll_interleaved sch pr w) ?p = snd (Conn_Close (heap w ?p))"
    by (simp add: fin heap_delConn p3a)
  have q1: "snd (Conn_Close (heap w1 ?q)) = snd (Conn_Close (heap w ?q))"
    by (simp add: w1_def snd_Close Conn_Close_twice)
  have q2: "heap w2 ?q = snd (Conn_Close (heap w ?q))"
    by (simp add: w2_def snd_Close w1a_def interfere_Close q1)
  have cq2: "closed (heap w2 ?q)" unfolding q2 by (rule Conn_Close_closes(1))
  have q2a: "heap w2a ?q = snd (Conn_Close (heap w ?q))"
    unfolding w2a_def interfere_closed [OF cq2] by (rule q2)
  have q3: "heap w3 ?q = snd (Conn_Close (heap w ?q))"
    by (simp add: w3_def heap_delConn q2a)
  have cq3: "closed (heap w3 ?q)" unfolding q3 by (rule Conn_Close_closes(1))
  have q3a: "heap w3a ?q = snd (Conn_Close (heap w ?q))"
    unfolding w3a_def interfere_closed [OF cq3] by (rule q3)
  show "heap (closeAll_interleaved sch pr w) ?q = snd (Conn_Close (heap w ?q))"
    by (simp add: fin heap_delConn q3a)
qed

section \<open>Auxiliary facts: the health loop\<close>

lemma b_exec_append: "b_exec (xs @ ys) s = b_exec ys (b_exec xs s)"
  by (induction xs arbitrary: s) simp_all

lemma healthcheck_loop_ops:
  "\<exists>k\<le>length xs. b_exec (concat (replicate k [ProbeDial, ProbeSet])) (b, h, n, None, ts)
      = (fst (healthcheck_loop xs (b, n)), h, snd (healthcheck_loop xs (b, n)), None, ts)"
proof (induction xs arbitrary: b n)
  case Nil
  then show ?case by simp
next
  case (Cons x xs)
  show ?case
  proof (cases x)
    case CtxDone
    then show ?thesis by (intro exI [of _ 0]) simp
  next
    case TickerC
    obtain b1 n1 where s: "healthcheck (b, n) = (b1, n1)" by (cases "healthcheck (b, n)")
    from Cons.IH [of b1 n1] obtain k where k: "k \<le> length xs"
      "b_exec (concat (replicate k [ProbeDial, ProbeSet])) (b1, h, n1, None, ts)
        = (fst (healthcheck_loop xs (b1, n1)), h, snd (healthcheck_loop xs (b1, n1)), None, ts)"
      by blast
    have "b_exec (concat (replicate (Suc k) [ProbeDial, ProbeSet])) (b, h, n, None, ts)
        = b_exec (concat (replicate k [ProbeDial, ProbeSet]))
            (b_exec [ProbeDial, ProbeSet] (b, h, n, None, ts))"
      by (simp only: replicate_Suc concat.simps b_exec_append)
    also have "\<dots> = (fst (healthcheck_loop (x # xs) (b, n)), h,
                     snd (healthcheck_loop (x # xs) (b, n)), None, ts)"
      by (simp only: healthcheck_steps s fst_conv snd_conv k(2) TickerC healthcheck_loop.simps)
    finally show ?thesis using k(1) by (intro exI [of _ "Suc k"]) simp
  qed
qed

lemma runHealthcheck_ops:
  "\<exists>k. 1 \<le> k \<and> k \<le> length xs + 1
     \<and> b_exec (concat (replicate k [ProbeDial, ProbeSet])) (b, h, n, None, ts)
      = (fst (runHealthcheck xs (b, n)), h, snd (runHealthcheck xs (b, n)), None, ts)"
proof -
  obtain b1 n1 where s: "healthcheck (b, n) = (b1, n1)" by (cases "healthcheck (b, n)")
  from healthcheck_loop_ops [of xs b1 h n1] obtain k where k: "k \<le> length xs"
    "b_exec (concat (replicate k [ProbeDial, ProbeSet])) (b1, h, n1, None, ts)
      = (fst (healthcheck_loop xs (b1, n1)), h, snd (healthcheck_loop xs (b1, n1)), None, ts)"
    by blast
  have "b_exec (concat (replicate (Suc k) [ProbeDial, ProbeSet])) (b, h, n, None, ts)
      = b_exec (concat (replicate k [ProbeDial, ProbeSet]))
          (b_exec [ProbeDial, ProbeSet] (b, h, n, None, ts))"
    by (simp only: replicate_Suc concat.simps b_exec_append)
  also have "\<dots> = (fst (runHealthcheck xs (b, n)), h, snd (runHealthcheck xs (b, n)), None, ts)"
    by (simp only: healthcheck_steps s fst_conv snd_conv k(2) runHealthcheck_def)
  finally show ?thesis using k(1) by (intro exI [of _ "Suc k"]) simp
qed

section \<open>Evaluation rules for the examples\<close>

lemmas example_defs = example_sock_def example_backend_def example_frontend_def example_heap_def
  example_network_def example_world_def example_env_def example_backends_def

lemmas pair_life_eval = pair_life_def handleNewConnection_interleaved_def
  createRemoteConnection_def active_snapshot_def enumerate_eq_zip getConnCount_def createConn_def
  DialContext_def new_ptr_def newConn_def fdFromConn_def b_addConn_def f_addConn_def
  b_delConn_def f_delConn_def snd_Close Conn_Close_def CompareAndSwap_def NetConn_Close_def
  relay_exit_interleaved_def closeAll_interleaved_def quiet_schedule_def cancel_def
  shutdown_def close_connections_def Let_def tracked_def example_defs

lemma addConn_cancelled:
  "(b_ctx b \<longrightarrow> closed (snd (b_addConn p (b, h)) p)
       \<and> map_of (b_connections (fst (b_addConn p (b, h)))) (fd (h p)) = Some p)
   \<and> (f_ctx f \<longrightarrow> closed (snd (f_addConn p (f, h)) p)
       \<and> map_of (f_connections (fst (f_addConn p (f, h)))) (fd (h p)) = Some p)"
  by (cases "closed (h p)")
     (simp_all add: b_addConn_def f_addConn_def Close_def Conn_Close_def CompareAndSwap_def
        NetConn_Close_def update_conv Let_def split: prod.splits)

section \<open>Registering a handle after cancellation\<close>

text \<open>
  C1. The claim: when the manager's context is already done, \<open>addConn\<close> closes the handle
  and does not insert it. The code closes the handle and then falls through to the insertion
  (the \<open>select\<close> has no \<open>return\<close> in its \<open>Done\<close> branch, unlike \<open>delConn\<close>). Evaluated
  on a backend and on a frontend whose context is done and whose map is empty, with a handle
  of descriptor 7 at address 0: the handle is closed and the map holds it.
\<close>

theorem addConn_cancelled_still_inserts:
  "b_connections (fst (b_addConn 0 (example_backend ''127.0.0.1:9000'' True True [], example_heap)))
     = [(7, 0)]
   \<and> closed (snd (b_addConn 0 (example_backend ''127.0.0.1:9000'' True True [], example_heap)) 0)
   \<and> f_connections (fst (f_addConn 0 (example_frontend True [], example_heap))) = [(7, 0)]
   \<and> closed (snd (f_addConn 0 (example_frontend True [], example_heap)) 0)"
  by (simp add: example_defs b_addConn_def f_addConn_def Close_def Conn_Close_def CompareAndSwap_def
        NetConn_Close_def newConn_def fdFromConn_def)

section \<open>Teardown of an accepted pair\<close>

text \<open>
  C2 (as the code has it). For an accepted pair whose sockets had not been closed before
  and whose addresses are new to the managers' maps, after both relay goroutines have
  ended, whatever cancellation or closing of handles came between the statements of the
  handler and of \<open>closeAll\<close>: \<open>closeAll\<close> has run exactly once, and each of the two handles
  is closed and its socket's \<open>Close()\<close> has been called exactly once. A handle whose
  \<open>delConn\<close> call found the context not done is in no manager's map afterwards: the
  client handle when nothing interfered before \<open>delConn(conn)\<close>, the upstream handle when
  nothing interfered before \<open>delConn(rConn)\<close>.
\<close>

theorem pair_teardown:
  assumes life: "pair_life sch netConn w = (Some pr, w')"
    and fresh: "close_calls netConn = 0"
      "\<forall>k a s. dial_outcome (netw w) k a = Inr s \<longrightarrow> close_calls s = 0"
    and wf: "\<forall>x\<in>tracked w. x < next_ptr w"
  shows "closeAll_runs pr = 1
     \<and> closed (heap w' (p_conn pr)) \<and> close_calls (net_Conn (heap w' (p_conn pr))) = 1
     \<and> closed (heap w' (p_rConn pr)) \<and> close_calls (net_Conn (heap w' (p_rConn pr))) = 1
     \<and> (\<not> f_ctx (fe w) \<and> after_dial sch = Undisturbed \<and> after_rConn_addConn sch = Undisturbed
          \<and> while_relaying sch = Undisturbed \<and> after_conn_Close sch = Undisturbed
          \<and> after_rConn_Close sch = Undisturbed \<longrightarrow>
          p_conn pr \<notin> tracked w')
     \<and> ((\<forall>b\<in>set (backends w). \<not> b_ctx b)
          \<and> after_dial sch = Undisturbed \<and> after_rConn_addConn sch = Undisturbed
          \<and> while_relaying sch = Undisturbed \<and> after_conn_Close sch = Undisturbed
          \<and> after_rConn_Close sch = Undisturbed \<and> after_conn_delConn sch = Undisturbed \<longrightarrow>
          p_rConn pr \<notin> tracked w')"
proof -
  from life obtain pr0 w1 where
    hd: "handleNewConnection_interleaved sch netConn w = (Relaying pr0, w1)"
    by (auto simp: pair_life_def split: prod.splits handled.splits)
  from handleNewConnection_interleaved_Relaying [OF hd] obtain i rs where
    i: "i < length (backends w)"
    and pr0: "pr0 = \<lparr>p_conn = next_ptr w + 1, p_rConn = next_ptr w, closeOnce = False,
                    closeAll_runs = 0\<rparr>"
    and dial: "dial_outcome (netw w) (length (dialled (netw w))) (addr (backends w ! i)) = Inr rs"
    and cq1: "snd (Conn_Close (heap w1 (next_ptr w)))
               = snd (Conn_Close (newConn rs (BackendMgr i)))"
    and cp1: "snd (Conn_Close (heap w1 (next_ptr w + 1)))
               = snd (Conn_Close (newConn netConn FrontendMgr))"
    by blast
  let ?p = "next_ptr w + 1" and ?q = "next_ptr w"
  define wa where "wa = interfere (while_relaying sch) w1"
  define wb where "wb = closeAll_interleaved sch pr0 wa"
  have rs0: "close_calls rs = 0" using fresh(2) dial by blast
  have pq: "p_conn pr0 = ?p" "p_rConn pr0 = ?q" by (simp_all add: pr0)
  have ex1: "relay_exit_interleaved sch (pr0, interfere (while_relaying sch) w1)
      = (pr0\<lparr>closeOnce := True, closeAll_runs := 1\<rparr>, wb)"
    by (simp add: relay_exit_interleaved_def pr0 wb_def wa_def)
  have ex2: "relay_exit_interleaved sch (pr0\<lparr>closeOnce := True, closeAll_runs := 1\<rparr>, x)
      = (pr0\<lparr>closeOnce := True, closeAll_runs := 1\<rparr>, x)" for x
    by (simp add: relay_exit_interleaved_def)
  from life have "(Some (fst (relay_exit_interleaved sch
                     (pr0\<lparr>closeOnce := True, closeAll_runs := 1\<rparr>,
                      interfere (after_closeAll sch) wb))),
              snd (relay_exit_interleaved sch
                     (pr0\<lparr>closeOnce := True, closeAll_runs := 1\<rparr>,
                      interfere (after_closeAll sch) wb))) = (Some pr, w')"
    by (simp only: pair_life_def hd prod.case handled.case Let_def ex1 fst_conv snd_conv)
  then have res: "pr = pr0\<lparr>closeOnce := True, closeAll_runs := 1\<rparr>"
    "w' = interfere (after_closeAll sch) wb"
    by (simp_all only: ex2 fst_conv snd_conv prod.inject option.inject)
  have tw': "tracked w' = tracked wb" by (simp add: res tracked_interfere)
  have pp: "p_conn pr = ?p" "p_rConn pr = ?q" by (simp_all add: res pr0)
  have hbp: "heap wb ?p = snd (Conn_Close (newConn netConn FrontendMgr))"
    using closeAll_interleaved_heap(1) [of sch pr0 wa]
    by (simp only: wb_def pq wa_def interfere_Close cp1)
  have hbq: "heap wb ?q = snd (Conn_Close (newConn rs (BackendMgr i)))"
    using closeAll_interleaved_heap(2) [of sch pr0 wa]
    by (simp only: wb_def pq wa_def interfere_Close cq1)
  have clp: "closed (heap wb ?p)" unfolding hbp by (rule Conn_Close_closes(1))
  have clq: "closed (heap wb ?q)" unfolding hbq by (rule Conn_Close_closes(1))
  have hp: "heap w' ?p = snd (Conn_Close (newConn netConn FrontendMgr))"
    unfolding res(2) interfere_closed [OF clp] by (rule hbp)
  have hq: "heap w' ?q = snd (Conn_Close (newConn rs (BackendMgr i)))"
    unfolding res(2) interfere_closed [OF clq] by (rule hbq)
  have cp: "closed (heap w' ?p) \<and> close_calls (net_Conn (heap w' ?p)) = 1"
    unfolding hp by (simp add: Conn_Close_closes newConn_def fresh(1))
  have cq: "closed (heap w' ?q) \<and> close_calls (net_Conn (heap w' ?q)) = 1"
    unfolding hq by (simp add: Conn_Close_closes newConn_def rs0)
  have np: "?p \<notin> tracked w" and nq: "?q \<notin> tracked w" using wf by fastforce+
  have dereg: "(\<not> f_ctx (fe w) \<longrightarrow> ?p \<notin> tracked wb)
      \<and> ((\<forall>b\<in>set (backends w). \<not> b_ctx b) \<and> after_conn_delConn sch = Undisturbed \<longrightarrow>
           ?q \<notin> tracked wb)"
    if quiet: "after_dial sch = Undisturbed" "after_rConn_addConn sch = Undisturbed"
        "while_relaying sch = Undisturbed" "after_conn_Close sch = Undisturbed"
        "after_rConn_Close sch = Undisturbed"
  proof -
    from hd quiet(1,2) have hd': "handleNewConnection netConn w = (Relaying pr0, w1)"
      by (simp add: handleNewConnection_interleaved_quiet)
    from handleNewConnection_Relaying [OF hd'] obtain i' rs' where
      i': "i' < length (backends w)"
      and dial': "dial_outcome (netw w) (length (dialled (netw w))) (addr (backends w ! i'))
                  = Inr rs'"
      and h1: "heap w1 = (heap w)
         (next_ptr w := (if b_ctx (backends w ! i') then snd (Conn_Close (newConn rs' (BackendMgr i')))
                         else newConn rs' (BackendMgr i')),
          next_ptr w + 1 := (if f_ctx (fe w) then snd (Conn_Close (newConn netConn FrontendMgr))
                             else newConn netConn FrontendMgr))"
      and f1: "fe w1 = (fe w)\<lparr>f_connections :=
          AList.update (Sysfd netConn) (next_ptr w + 1) (f_connections (fe w))\<rparr>"
      and b1: "backends w1 = (backends w)[i' := (backends w ! i')\<lparr>b_connections :=
          AList.update (Sysfd rs') (next_ptr w) (b_connections (backends w ! i'))\<rparr>]"
      by blast
    let ?mf = "f_connections (fe w)" and ?mb = "b_connections (backends w ! i')"
    define w2a where "w2a = w1\<lparr>heap := snd (Close ?q (snd (Close ?p (heap w1))))\<rparr>"
    define w3 where "w3 = delConn (manager (heap w2a ?p)) ?p w2a"
    define w3a where "w3a = interfere (after_conn_delConn sch) w3"
    have wb': "wb = delConn (manager (heap w3a ?q)) ?q w3a"
      by (simp add: wb_def wa_def closeAll_interleaved_def Let_def quiet pq w2a_def w3_def
            w3a_def)
    have mp: "manager (heap w2a ?p) = FrontendMgr" "fd (heap w2a ?p) = Sysfd netConn"
      by (simp_all add: w2a_def snd_Close h1 Conn_Close_keeps newConn_def fdFromConn_def)
    have mq: "manager (heap w2a ?q) = BackendMgr i'" "fd (heap w2a ?q) = Sysfd rs'"
      by (simp_all add: w2a_def snd_Close h1 Conn_Close_keeps newConn_def fdFromConn_def)
    have w2a: "fe w2a = fe w1" "backends w2a = backends w1"
      by (simp_all add: w2a_def)
    have w3': "w3 = delConn FrontendMgr ?p w2a"
      unfolding w3_def mp(1) by (rule refl)
    have w3: "fe w3 = (if f_ctx (fe w) then fe w1 else (fe w)\<lparr>f_connections :=
          AList.delete (Sysfd netConn) (AList.update (Sysfd netConn) ?p ?mf)\<rparr>)"
      "backends w3 = backends w1" "heap w3 = heap w2a"
      using mp(2) by (simp_all add: w3' f_delConn_def w2a f1)
    define F where "F = snd ` set ?mf"
    define B where "B = (\<Union>c\<in>set (backends w). snd ` set (b_connections c))"
    have tw: "tracked w = F \<union> B" by (simp add: tracked_def F_def B_def)
    from np nq tw have npq: "?p \<notin> F" "?p \<notin> B" "?q \<notin> F" "?q \<notin> B" by simp_all
    have ru: "snd ` set (b_connections ((backends w ! i')\<lparr>b_connections :=
          AList.update (Sysfd rs') ?q ?mb\<rparr>)) \<subseteq> {?q} \<union> snd ` set ?mb"
      using ran_update [of "Sysfd rs'" ?q ?mb] by simp
    have bsub: "(\<Union>c\<in>set (backends w1). snd ` set (b_connections c)) \<subseteq> {?q} \<union> B"
      unfolding b1 B_def by (rule tracked_list_update [OF i' ru])
    have fsub: "snd ` set (f_connections (fe w3)) \<subseteq> F" if "\<not> f_ctx (fe w)"
      unfolding F_def using ran_delete_update [of "Sysfd netConn" ?p ?mf] that
      by (simp add: w3(1))
    have fsub2: "snd ` set (f_connections (fe w3)) \<subseteq> {?p} \<union> F"
    proof (cases "f_ctx (fe w)")
      case True
      then show ?thesis
        unfolding F_def using ran_update [of "Sysfd netConn" ?p ?mf] by (simp add: w3(1) f1)
    next
      case False
      from fsub [OF this] show ?thesis by blast
    qed
    have t3a: "tracked w3a = tracked w3"
      by (simp add: w3a_def tracked_interfere)
    have twb: "tracked wb \<subseteq> tracked w3"
      unfolding wb' t3a [symmetric] by (rule tracked_delConn)
    have pneq: "?p \<noteq> ?q" by simp
    have first: "?p \<notin> tracked wb" if nf: "\<not> f_ctx (fe w)"
    proof -
      have "tracked w3 \<subseteq> F \<union> ({?q} \<union> B)"
        unfolding tracked_def w3(2) by (rule Un_mono [OF fsub [OF nf] bsub])
      with twb npq(1,2) pneq show ?thesis by blast
    qed
    have second: "?q \<notin> tracked wb"
      if nb: "\<forall>b\<in>set (backends w). \<not> b_ctx b" and q6: "after_conn_delConn sch = Undisturbed"
    proof -
      have w3a: "w3a = w3" by (simp add: w3a_def q6)
      have bi: "\<not> b_ctx (backends w ! i')" using nb i' by simp
      have wb'': "wb = delConn (BackendMgr i') ?q w3"
        unfolding wb' w3a w3(3) mq(1) by (rule refl)
      let ?b = "(backends w ! i')\<lparr>b_connections :=
          AList.delete (Sysfd rs') (AList.update (Sysfd rs') ?q ?mb)\<rparr>"
      have bwb: "backends wb = (backends w)[i' := ?b]" and fwb: "fe wb = fe w3"
        using i' bi mq(2) by (simp_all add: wb'' b_delConn_def w3 b1)
      have rd: "snd ` set (b_connections ?b) \<subseteq> {} \<union> snd ` set ?mb"
        using ran_delete_update [of "Sysfd rs'" ?q ?mb] by simp
      have bsub2: "(\<Union>c\<in>set (backends wb). snd ` set (b_connections c)) \<subseteq> {} \<union> B"
        unfolding bwb B_def by (rule tracked_list_update [OF i' rd])
      have "tracked wb \<subseteq> ({?p} \<union> F) \<union> ({} \<union> B)"
        unfolding tracked_def fwb by (rule Un_mono [OF fsub2 bsub2])
      with npq(3,4) pneq show ?thesis by auto
    qed
    from first second show ?thesis by blast
  qed
  have d1: "p_conn pr \<notin> tracked w'"
    if "\<not> f_ctx (fe w) \<and> after_dial sch = Undisturbed \<and> after_rConn_addConn sch = Undisturbed
          \<and> while_relaying sch = Undisturbed \<and> after_conn_Close sch = Undisturbed
          \<and> after_rConn_Close sch = Undisturbed"
    using dereg that unfolding pp tw' by blast
  have d2: "p_rConn pr \<notin> tracked w'"
    if "(\<forall>b\<in>set (backends w). \<not> b_ctx b)
          \<and> after_dial sch = Undisturbed \<and> after_rConn_addConn sch = Undisturbed
          \<and> while_relaying sch = Undisturbed \<and> after_conn_Close sch = Undisturbed
          \<and> after_rConn_Close sch = Undisturbed \<and> after_conn_delConn sch = Undisturbed"
    using dereg that unfolding pp tw' by blast
  have runs: "closeAll_runs pr = 1" by (simp add: res)
  have cp': "closed (heap w' (p_conn pr)) \<and> close_calls (net_Conn (heap w' (p_conn pr))) = 1"
    using cp by (simp only: pp)
  have cq': "closed (heap w' (p_rConn pr)) \<and> close_calls (net_Conn (heap w' (p_rConn pr))) = 1"
    using cq by (simp only: pp)
  from runs cp' cq' d1 d2 show ?thesis by blast
qed

theorem pair_teardown_witness:
  "fst (pair_life (quiet_schedule\<lparr>after_closeAll := ShutDown\<rparr>) (example_sock 7)
          (example_world False [example_backend ''10.0.0.1:9000'' False True []]))
     = Some \<lparr>p_conn = 1, p_rConn = 0, closeOnce = True, closeAll_runs = 1\<rparr>
   \<and> close_calls (net_Conn (heap (snd (pair_life (quiet_schedule\<lparr>after_closeAll := ShutDown\<rparr>)
          (example_sock 7)
          (example_world False [example_backend ''10.0.0.1:9000'' False True []]))) 1)) = 1
   \<and> close_calls (net_Conn (heap (snd (pair_life (quiet_schedule\<lparr>after_closeAll := ShutDown\<rparr>)
          (example_sock 7)
          (example_world False [example_backend ''10.0.0.1:9000'' False True []]))) 0)) = 1
   \<and> 1 \<notin> tracked (snd (pair_life (quiet_schedule\<lparr>after_closeAll := ShutDown\<rparr>)
          (example_sock 7)
          (example_world False [example_backend ''10.0.0.1:9000'' False True []])))
   \<and> 0 \<notin> tracked (snd (pair_life (quiet_schedule\<lparr>after_closeAll := ShutDown\<rparr>)
          (example_sock 7)
          (example_world False [example_backend ''10.0.0.1:9000'' False True []])))"
proof -
  let ?w = "example_world False [example_backend ''10.0.0.1:9000'' False True []]"
  let ?sch = "quiet_schedule\<lparr>after_closeAll := ShutDown\<rparr>"
  let ?pr = "\<lparr>p_conn = 1, p_rConn = 0, closeOnce = True, closeAll_runs = 1\<rparr>"
  have f: "fst (pair_life ?sch (example_sock 7) ?w) = Some ?pr"
    by (simp add: pair_life_eval)
  then have life: "pair_life ?sch (example_sock 7) ?w
      = (Some ?pr, snd (pair_life ?sch (example_sock 7) ?w))"
    by (metis prod.collapse)
  have fresh: "close_calls (example_sock 7) = 0"
    "\<forall>k a s. dial_outcome (netw ?w) k a = Inr s \<longrightarrow> close_calls s = 0"
    by (auto simp: example_defs)
  have wf: "\<forall>x\<in>tracked ?w. x < next_ptr ?w"
    by (simp add: tracked_def example_defs)
  have nc: "(\<forall>b\<in>set (backends ?w). \<not> b_ctx b) \<and> \<not> f_ctx (fe ?w)
          \<and> after_dial ?sch = Undisturbed \<and> after_rConn_addConn ?sch = Undisturbed
          \<and> while_relaying ?sch = Undisturbed \<and> after_conn_Close ?sch = Undisturbed
          \<and> after_rConn_Close ?sch = Undisturbed \<and> after_conn_delConn ?sch = Undisturbed"
    by (simp add: example_defs quiet_schedule_def)
  from pair_teardown [OF life fresh wf] nc f show ?thesis
    by simp
qed

text \<open>
  C2 as stated fails: when the context is cancelled and the \<open>run\<close> functions close the
  handles before the relay goroutines end (the shutdown path), \<open>closeAll\<close> still runs once,
  but \<open>delConn\<close> does nothing and both handles stay in their managers' maps.
\<close>

theorem teardown_after_cancel_keeps_entries:
  "fst (pair_life (quiet_schedule\<lparr>while_relaying := ShutDown\<rparr>) (example_sock 7)
          (example_world False [example_backend ''10.0.0.1:9000'' False True []]))
     = Some \<lparr>p_conn = 1, p_rConn = 0, closeOnce = True, closeAll_runs = 1\<rparr>
   \<and> f_connections (fe (snd (pair_life (quiet_schedule\<lparr>while_relaying := ShutDown\<rparr>)
          (example_sock 7)
          (example_world False [example_backend ''10.0.0.1:9000'' False True []])))) = [(7, 1)]
   \<and> map b_connections (backends (snd (pair_life (quiet_schedule\<lparr>while_relaying := ShutDown\<rparr>)
          (example_sock 7)
          (example_world False [example_backend ''10.0.0.1:9000'' False True []])))) = [[(9, 0)]]"
  by (simp add: pair_life_eval)

text \<open>
  A cancellation between the two \<open>delConn\<close> calls of \<open>closeAll\<close>: the client handle is
  deregistered, the upstream handle stays in the backend's map.
\<close>

lemma cancel_between_delConn_calls:
  "f_connections (fe (snd (pair_life (quiet_schedule\<lparr>after_conn_delConn := CtxCancelled\<rparr>)
          (example_sock 7)
          (example_world False [example_backend ''10.0.0.1:9000'' False True []])))) = []
   \<and> map b_connections (backends (snd (pair_life
          (quiet_schedule\<lparr>after_conn_delConn := CtxCancelled\<rparr>) (example_sock 7)
          (example_world False [example_backend ''10.0.0.1:9000'' False True []])))) = [[(9, 0)]]"
  by (simp add: pair_life_eval)

section \<open>The choice of the least loaded backend\<close>

text \<open>
  C3. When some backend is active, \<open>createRemoteConnection\<close> dials exactly one address,
  that of a backend \<open>i\<close> which is active, whose connection count is minimal among the
  active backends, and before which no active backend has the same count (the first in
  configuration order wins a tie); a handle it returns is managed by backend \<open>i\<close>.
\<close>

theorem createRemoteConnection_least_loaded:
  assumes "\<exists>b\<in>set (backends w). active b"
  shows "\<exists>i<length (backends w).
      active (backends w ! i)
    \<and> (\<forall>j<length (backends w). active (backends w ! j) \<longrightarrow>
          getConnCount (backends w ! i) \<le> getConnCount (backends w ! j))
    \<and> (\<forall>j<i. active (backends w ! j) \<longrightarrow>
          getConnCount (backends w ! i) < getConnCount (backends w ! j))
    \<and> dialled (netw (snd (createRemoteConnection w))) = dialled (netw w) @ [addr (backends w ! i)]
    \<and> (case fst (createRemoteConnection w) of
          Inl e \<Rightarrow> e \<noteq> NoBackend
        | Inr p \<Rightarrow> manager (heap (snd (createRemoteConnection w)) p) = BackendMgr i)"
proof -
  from least_loaded_snapshot_Some [OF assms] obtain i b where
    s: "least_loaded (active_snapshot (backends w)) = Some (i, b)" by blast
  from least_loaded_snapshot [OF s] createRemoteConnection_chosen [OF s]
  show ?thesis by blast
qed

theorem createRemoteConnection_least_loaded_witness:
  "(\<exists>b\<in>set (backends (example_world False example_backends)). active b)
   \<and> dialled (netw (snd (createRemoteConnection (example_world False example_backends))))
       = [''10.0.0.3:9000'']
   \<and> (\<exists>i<length (backends (example_world False example_backends)).
        dialled (netw (snd (createRemoteConnection (example_world False example_backends))))
          = dialled (netw (example_world False example_backends))
            @ [addr (backends (example_world False example_backends) ! i)])"
proof -
  let ?w = "example_world False example_backends"
  have h: "\<exists>b\<in>set (backends ?w). active b"
    by (simp add: example_defs example_backends_def)
  have d: "dialled (netw (snd (createRemoteConnection ?w))) = [''10.0.0.3:9000'']"
    by (simp add: example_defs example_backends_def createRemoteConnection_def
          active_snapshot_def enumerate_eq_zip getConnCount_def createConn_def DialContext_def
          new_ptr_def upt_rec)
  from createRemoteConnection_least_loaded [OF h] h d show ?thesis by blast
qed

section \<open>The connection handle closes its socket once\<close>

text \<open>
  C4 (as the code has it). For a handle that is not yet closed (every handle that \<open>newConn\<close>
  makes) and every \<open>N \<ge> 1\<close>, \<open>N\<close> calls of \<open>Close\<close> call the socket's \<open>Close()\<close> exactly once,
  in the first call; the first call returns what the socket's \<open>Close()\<close> returned, and every
  later call changes nothing and returns \<open>nil\<close>.
\<close>

theorem Close_times_once:
  assumes "\<not> closed c" and "1 \<le> N"
  shows "fst (Close_times N c) = close_result (net_Conn c) # replicate (N - 1) None
       \<and> close_calls (net_Conn (snd (Close_times N c))) = close_calls (net_Conn c) + 1
       \<and> snd (Close_times N c) = snd (Conn_Close c)
       \<and> closed (snd (Close_times N c))"
proof -
  from assms(2) obtain n where N: "N = Suc n" by (cases N) auto
  let ?c1 = "c\<lparr>closed := True, net_Conn := (net_Conn c)\<lparr>close_calls := close_calls (net_Conn c) + 1\<rparr>\<rparr>"
  have step: "Conn_Close c = (close_result (net_Conn c), ?c1)"
    using assms(1) by (rule Conn_Close_open)
  have rest: "Close_times n ?c1 = (replicate n None, ?c1)"
    by (rule Close_times_closed) simp
  have all: "Close_times (Suc n) c = (close_result (net_Conn c) # replicate n None, ?c1)"
    using step rest by simp
  show ?thesis
    unfolding N all step by simp
qed

theorem Close_times_once_witness:
  "fst (Close_times 3 (newConn \<lparr>Sysfd = 7, close_result = None, close_calls = 0\<rparr> FrontendMgr))
     = [None, None, None]
   \<and> close_calls (net_Conn (snd (Close_times 3
        (newConn \<lparr>Sysfd = 7, close_result = None, close_calls = 0\<rparr> FrontendMgr)))) = 1"
proof -
  let ?c = "newConn \<lparr>Sysfd = 7, close_result = None, close_calls = 0\<rparr> FrontendMgr"
  have h1: "\<not> closed ?c" by (simp add: newConn_def)
  have h2: "(1::nat) \<le> 3" by simp
  note t = Close_times_once [OF h1 h2]
  from t have a: "fst (Close_times 3 ?c) = close_result (net_Conn ?c) # replicate (3 - 1) None"
    by blast
  from t have b: "close_calls (net_Conn (snd (Close_times 3 ?c))) = close_calls (net_Conn ?c) + 1"
    by blast
  have c: "close_result (net_Conn ?c) # replicate (3 - 1) None = [None, None, None]"
    by (simp add: newConn_def numeral_2_eq_2)
  have d: "close_calls (net_Conn ?c) + 1 = 1"
    by (simp add: newConn_def)
  show ?thesis using a b c d by presburger
qed

text \<open>
  C4 as stated fails: the first call returns the error of the socket's \<open>Close()\<close> when there
  is one.
\<close>

theorem Close_first_call_error:
  "fst (Close_times 1
     (newConn \<lparr>Sysfd = 7, close_result = Some (NetError ''close tcp: input/output error''),
               close_calls = 0\<rparr> FrontendMgr))
   = [Some (NetError ''close tcp: input/output error'')]"
  by (simp add: newConn_def fdFromConn_def Conn_Close_def CompareAndSwap_def NetConn_Close_def)

section \<open>Passive and active health marking\<close>

text \<open>
  C5 (as the code has it). \<open>createConn\<close> on a failed dial returns the error wrapped as
  \<open>Dial()\<close> and leaves the backend with \<open>active = false\<close>; on a successful dial it returns
  the socket and leaves the backend as it was. Among the steps of the goroutines that work
  on a backend, the only one that takes the flag from false to true is the \<open>setActive\<close> of
  a health check whose dial succeeded. Over any interleaving of those steps, if the flag is
  false at the start and true at the end, then a health check dialled successfully: one of
  the run, or the one that was in flight at its start.
\<close>

theorem createConn_passive_marking:
  "createConn (b, n) =
     (case dial_outcome n (length (dialled n)) (addr b) of
        Inl err \<Rightarrow>
          (Inl (Wrap err ''Dial()''), b\<lparr>active := False\<rparr>, n\<lparr>dialled := dialled n @ [addr b]\<rparr>)
      | Inr c \<Rightarrow> (Inr c, b, n\<lparr>dialled := dialled n @ [addr b]\<rparr>))
   \<and> (\<not> active (fst s) \<and> active (fst (b_step x s)) \<longrightarrow> x = ProbeSet \<and> probe_in_flight s)
   \<and> (\<not> active (fst s) \<and> active (fst (b_exec ops s)) \<longrightarrow>
        probe_in_flight s \<or> probe_succeeded ops s)"
proof (intro conjI impI)
  show "createConn (b, n) =
     (case dial_outcome n (length (dialled n)) (addr b) of
        Inl err \<Rightarrow>
          (Inl (Wrap err ''Dial()''), b\<lparr>active := False\<rparr>, n\<lparr>dialled := dialled n @ [addr b]\<rparr>)
      | Inr c \<Rightarrow> (Inr c, b, n\<lparr>dialled := dialled n @ [addr b]\<rparr>))"
    by (simp add: createConn_def DialContext_def setActive_eq split: sum.splits)
next
  assume a: "\<not> active (fst s) \<and> active (fst (b_step x s))"
  then show "x = ProbeSet" using b_step_inactive [of s x] by blast
  from a show "probe_in_flight s" using b_step_inactive [of s x] by blast
next
  assume "\<not> active (fst s) \<and> active (fst (b_exec ops s))"
  then show "probe_in_flight s \<or> probe_succeeded ops s"
    using b_exec_inactive [of s ops] by blast
qed

theorem createConn_passive_marking_witness:
  "\<not> active (example_backend ''10.0.0.2:9000'' False False [])
   \<and> active (fst (b_step ProbeSet
        (example_backend ''10.0.0.2:9000'' False False [], example_heap,
         example_network (\<lambda>k. 0 < k), Some (Inr (example_sock 9)), [])))
   \<and> probe_in_flight (example_backend ''10.0.0.2:9000'' False False [], example_heap,
                   example_network (\<lambda>k. 0 < k), Some (Inr (example_sock 9)), [])
   \<and> active (fst (b_exec [TrafficDial, ProbeDial, TrafficReturn 0, ProbeSet]
        (example_backend ''10.0.0.2:9000'' False False [], example_heap,
         example_network (\<lambda>k. 0 < k), None, [])))
   \<and> probe_succeeded [TrafficDial, ProbeDial, TrafficReturn 0, ProbeSet]
        (example_backend ''10.0.0.2:9000'' False False [], example_heap,
         example_network (\<lambda>k. 0 < k), None, [])"
proof -
  let ?b = "example_backend ''10.0.0.2:9000'' False False []"
  let ?n = "example_network (\<lambda>k. 0 < k)"
  let ?s1 = "(?b, example_heap, ?n, Some (Inr (example_sock 9)), []) :: b_state"
  let ?s2 = "(?b, example_heap, ?n, None, []) :: b_state"
  let ?ops = "[TrafficDial, ProbeDial, TrafficReturn 0, ProbeSet]"
  have a0: "\<not> active ?b" by (simp add: example_defs)
  have a1: "\<not> active (fst ?s1) \<and> active (fst (b_step ProbeSet ?s1))"
    by (simp add: example_defs probe_set_def setActive_eq)
  have a2: "\<not> active (fst ?s2) \<and> active (fst (b_exec ?ops ?s2))"
    by (simp add: example_defs traffic_return_def probe_dial_def probe_set_def DialContext_def
          setActive_eq)
  have nf: "\<not> probe_in_flight ?s2"
    by (simp add: probe_in_flight_def)
  note t1 = createConn_passive_marking [of ?b ?n ?s1 ProbeSet "[]",
      THEN conjunct2, THEN conjunct1]
  note t2 = createConn_passive_marking [of ?b ?n ?s2 ProbeSet ?ops,
      THEN conjunct2, THEN conjunct2]
  from t1 a1 have c1: "probe_in_flight ?s1" by blast
  from t2 a2 nf have c2: "probe_succeeded ?ops ?s2" by blast
  show ?thesis
    by (intro conjI a0 conjunct2 [OF a1] c1 conjunct2 [OF a2] c2)
qed

text \<open>
  C5 as stated fails in its last part: a health check that dialled successfully before a
  traffic dial failed sets the flag back to true after it, with no health-check dial after
  the failed traffic dial.
\<close>

theorem probe_in_flight_promotes:
  "\<not> active (fst (b_exec [ProbeDial, CreateConn]
        (example_backend ''10.0.0.2:9000'' False True [], example_heap,
         example_network (\<lambda>k. k = 0), None, [])))
   \<and> active (fst (b_exec [ProbeDial, CreateConn, ProbeSet]
        (example_backend ''10.0.0.2:9000'' False True [], example_heap,
         example_network (\<lambda>k. k = 0), None, [])))
   \<and> \<not> probe_succeeded [ProbeSet] (b_exec [ProbeDial, CreateConn]
        (example_backend ''10.0.0.2:9000'' False True [], example_heap,
         example_network (\<lambda>k. k = 0), None, []))
   \<and> dialled (fst (snd (snd (b_exec [ProbeDial, CreateConn, ProbeSet]
        (example_backend ''10.0.0.2:9000'' False True [], example_heap,
         example_network (\<lambda>k. k = 0), None, [])))))
     = dialled (fst (snd (snd (b_exec [ProbeDial, CreateConn]
        (example_backend ''10.0.0.2:9000'' False True [], example_heap,
         example_network (\<lambda>k. k = 0), None, [])))))"
  by (simp add: example_defs createConn_def probe_dial_def probe_set_def DialContext_def
        setActive_eq)

section \<open>No active backend\<close>

text \<open>
  C6. When no backend is active, \<open>createRemoteConnection\<close> fails with \<open>NoBackend\<close> and
  leaves the world as it was (so it dials nothing), and \<open>handleNewConnection\<close> closes the
  accepted socket and returns with the world unchanged (so it registers no handle).
\<close>

theorem no_active_backend_rejects:
  assumes "\<forall>b\<in>set (backends w). \<not> active b"
  shows "createRemoteConnection w = (Inl NoBackend, w)
       \<and> handleNewConnection netConn w =
           (Rejected (netConn\<lparr>close_calls := close_calls netConn + 1\<rparr>), w)"
  using active_snapshot_empty [OF assms]
  by (simp add: createRemoteConnection_def handleNewConnection_def NetConn_Close_def)

theorem no_active_backend_rejects_witness:
  "(\<forall>b\<in>set [example_backend ''10.0.0.1:9000'' False False [(4, 0)],
              example_backend ''10.0.0.2:9000'' False False []]. \<not> active b) = True
   \<and> createRemoteConnection (example_world False
        [example_backend ''10.0.0.1:9000'' False False [(4, 0)],
         example_backend ''10.0.0.2:9000'' False False []])
     = (Inl NoBackend, example_world False
        [example_backend ''10.0.0.1:9000'' False False [(4, 0)],
         example_backend ''10.0.0.2:9000'' False False []])
   \<and> fst (handleNewConnection (example_sock 11) (example_world False
        [example_backend ''10.0.0.1:9000'' False False [(4, 0)],
         example_backend ''10.0.0.2:9000'' False False []]))
     = Rejected \<lparr>Sysfd = 11, close_result = None, close_calls = 1\<rparr>"
proof -
  let ?bs = "[example_backend ''10.0.0.1:9000'' False False [(4, 0)],
              example_backend ''10.0.0.2:9000'' False False []]"
  have h: "\<forall>b\<in>set (backends (example_world False ?bs)). \<not> active b"
    by (simp add: example_defs)
  have h': "(\<forall>b\<in>set ?bs. \<not> active b) = True"
    by (simp add: example_defs)
  from no_active_backend_rejects [OF h, of "example_sock 11"] h'
  show ?thesis by (simp add: example_sock_def)
qed

section \<open>Errors of the accept loop\<close>

text \<open>
  C7. In an iteration of \<open>listenForNewConn\<close> in which the context is not done: an error
  of \<open>AcceptTCP\<close> whose text contains \<open>use of closed network connection\<close> ends the loop
  with nothing logged; \<open>k\<close> successive other errors are each logged at info level and the
  loop goes on with its next iteration. Nothing the loop does is a sleep or a log line at
  error level.
\<close>

theorem accept_loop_errors:
  "(\<not> ctx_done_at env n \<and> AcceptTCP env n = Inl err \<and> listener_closed err \<longrightarrow>
      listenForNewConn env n tr = Some tr)
   \<and> ((\<forall>j<k. \<not> ctx_done_at env (n + j)
          \<and> (\<exists>e. AcceptTCP env (n + j) = Inl e \<and> \<not> listener_closed e)) \<longrightarrow>
      listenForNewConn env n tr = listenForNewConn env (n + k) (tr @ other_errors env n k))
   \<and> (\<forall>tr'. listenForNewConn env n tr = Some tr' \<longrightarrow>
        (\<exists>ext. tr' = tr @ ext \<and> list_all quiet ext))"
proof (intro conjI impI allI)
  assume "\<not> ctx_done_at env n \<and> AcceptTCP env n = Inl err \<and> listener_closed err"
  then show "listenForNewConn env n tr = Some tr"
    by (simp add: accept_closed)
next
  assume "\<forall>j<k. \<not> ctx_done_at env (n + j)
          \<and> (\<exists>e. AcceptTCP env (n + j) = Inl e \<and> \<not> listener_closed e)"
  then show "listenForNewConn env n tr = listenForNewConn env (n + k) (tr @ other_errors env n k)"
    by (rule accept_retry)
next
  fix tr' assume "listenForNewConn env n tr = Some tr'"
  then show "\<exists>ext. tr' = tr @ ext \<and> list_all quiet ext"
    by (rule accept_result)
qed

theorem accept_loop_errors_witness:
  "listenForNewConn (example_env (\<lambda>j. False) (\<lambda>j. 1 \<le> j)) 1 [] = Some []
   \<and> listenForNewConn (example_env (\<lambda>j. False) (\<lambda>j. 1 \<le> j)) 0 []
     = listenForNewConn (example_env (\<lambda>j. False) (\<lambda>j. 1 \<le> j)) 1
         [Log InfoLevel ''AcceptTCP()''
            (Some (NetError ''accept tcp [::]:7000: accept4: too many open files''))]
   \<and> listenForNewConn (example_env (\<lambda>j. False) (\<lambda>j. 1 \<le> j)) 0 []
     = Some [Log InfoLevel ''AcceptTCP()''
            (Some (NetError ''accept tcp [::]:7000: accept4: too many open files''))]
   \<and> (\<exists>ext. [Log InfoLevel ''AcceptTCP()''
            (Some (NetError ''accept tcp [::]:7000: accept4: too many open files''))] = [] @ ext
         \<and> list_all quiet ext)"
proof -
  let ?env = "example_env (\<lambda>j. False) (\<lambda>j. 1 \<le> j)"
  let ?closed = "NetError ''accept tcp [::]:7000: use of closed network connection''"
  let ?other = "NetError ''accept tcp [::]:7000: accept4: too many open files''"
  have lc: "listener_closed ?closed"
    unfolding listener_closed_def Contains_def by code_simp
  have lo: "\<not> listener_closed ?other"
    unfolding listener_closed_def Contains_def by code_simp
  have a1: "AcceptTCP ?env 1 = Inl ?closed" and a0: "AcceptTCP ?env 0 = Inl ?other"
    and nd: "\<And>j. \<not> ctx_done_at ?env j"
    by (simp_all add: example_env_def)
  have A: "listenForNewConn ?env 1 tr = Some tr" for tr
    using accept_loop_errors [of ?env 1 ?closed tr 0] a1 lc nd by blast
  have h: "\<forall>j<1. \<not> ctx_done_at ?env (0 + j)
          \<and> (\<exists>e. AcceptTCP ?env (0 + j) = Inl e \<and> \<not> listener_closed e)"
    using a0 lo nd by simp
  have oe: "other_errors ?env 0 1 = [Log InfoLevel ''AcceptTCP()'' (Some ?other)]"
    using a0 by simp
  have B: "listenForNewConn ?env 0 [] = listenForNewConn ?env (0 + 1) ([] @ other_errors ?env 0 1)"
    using accept_loop_errors [of ?env 0 ?other "[]" 1] h by blast
  then have B': "listenForNewConn ?env 0 [] = listenForNewConn ?env 1 [Log InfoLevel ''AcceptTCP()'' (Some ?other)]"
    by (simp only: oe append_Nil add_0)
  with A have C: "listenForNewConn ?env 0 [] = Some [Log InfoLevel ''AcceptTCP()'' (Some ?other)]"
    by simp
  from accept_loop_errors [of ?env 0 ?other "[]" 1] C
  have D: "\<exists>ext. [Log InfoLevel ''AcceptTCP()'' (Some ?other)] = [] @ ext \<and> list_all quiet ext"
    by blast
  from A [of "[]"] B' C D show ?thesis by blast
qed

section \<open>The bind loop\<close>

text \<open>
  C8. While the context is not done and \<open>ListenTCP\<close> fails, the bind loop logs the error,
  sleeps 5 seconds and tries again; if that goes on forever the loop never returns. It
  returns as soon as a poll finds the context done or a bind succeeds, and only then: in the
  first case with the frontend as it was (no listener stored), in the second with the
  listener stored. No error is part of its result. \<open>run\<close> starts the accept loop in the
  second case only.
\<close>

theorem bind_loop_retries:
  "((\<forall>j<k. \<not> ctx_done_at env (n + j) \<and> isl (ListenTCP env (n + j))) \<longrightarrow>
      bind_loop env n (f, tr) = bind_loop env (n + k) (f, tr @ failed_binds env n k))
   \<and> ((\<forall>j. \<not> ctx_done_at env j \<and> isl (ListenTCP env j)) \<longrightarrow> bind_loop env n (f, tr) = None)
   \<and> ((\<exists>m\<ge>n. ctx_done_at env m \<or> \<not> isl (ListenTCP env m)) \<longrightarrow> bind_loop env n (f, tr) \<noteq> None)
   \<and> (\<forall>r. bind_loop env n (f, tr) = Some r \<longrightarrow>
        (\<exists>m\<ge>n. (\<forall>j<m. n \<le> j \<longrightarrow> \<not> ctx_done_at env j \<and> isl (ListenTCP env j)) \<and>
           (if ctx_done_at env m then r = (False, f, tr @ failed_binds env n (m - n))
            else \<exists>l. ListenTCP env m = Inr l \<and>
                   r = (True, f\<lparr>tcpListener := Some l\<rparr>, tr @ failed_binds env n (m - n)))))
   \<and> (\<forall>r. run_start env f = Some r \<longrightarrow>
        (if fst r
         then \<exists>l tr. r = (True, f\<lparr>tcpListener := Some l\<rparr>, tr @ [Go_listenForNewConn])
                \<and> Go_listenForNewConn \<notin> set tr
         else fst (snd r) = f \<and> Go_listenForNewConn \<notin> set (snd (snd r))))"
proof (intro conjI impI allI)
  assume "\<forall>j<k. \<not> ctx_done_at env (n + j) \<and> isl (ListenTCP env (n + j))"
  then show "bind_loop env n (f, tr) = bind_loop env (n + k) (f, tr @ failed_binds env n k)"
    by (rule bind_loop_retry)
next
  assume "\<forall>j. \<not> ctx_done_at env j \<and> isl (ListenTCP env j)"
  then show "bind_loop env n (f, tr) = None"
    by (rule bind_loop_forever)
next
  assume "\<exists>m\<ge>n. ctx_done_at env m \<or> \<not> isl (ListenTCP env m)"
  then obtain m where "ctx_done_at env m \<or> \<not> isl (ListenTCP env m)" "n \<le> m" by blast
  then show "bind_loop env n (f, tr) \<noteq> None"
    by (rule bind_loop_returns)
next
  fix r assume "bind_loop env n (f, tr) = Some r"
  from bind_loop_result [OF this]
  show "\<exists>m\<ge>n. (\<forall>j<m. n \<le> j \<longrightarrow> \<not> ctx_done_at env j \<and> isl (ListenTCP env j)) \<and>
           (if ctx_done_at env m then r = (False, f, tr @ failed_binds env n (m - n))
            else \<exists>l. ListenTCP env m = Inr l \<and>
                   r = (True, f\<lparr>tcpListener := Some l\<rparr>, tr @ failed_binds env n (m - n)))"
    by (simp only: fst_conv snd_conv)
next
  fix r assume "run_start env f = Some r"
  then show "if fst r
         then \<exists>l tr. r = (True, f\<lparr>tcpListener := Some l\<rparr>, tr @ [Go_listenForNewConn])
                \<and> Go_listenForNewConn \<notin> set tr
         else fst (snd r) = f \<and> Go_listenForNewConn \<notin> set (snd (snd r))"
    by (rule run_start_result)
qed

theorem bind_loop_retries_witness:
  "bind_loop (example_env (\<lambda>j. False) (\<lambda>j. 2 \<le> j)) 0 (example_frontend False [], [])
     = bind_loop (example_env (\<lambda>j. False) (\<lambda>j. 2 \<le> j)) 2
         (example_frontend False [],
          [Log ErrorLevel ''ListenTCP()''
             (Some (NetError ''listen tcp :7000: bind: address already in use'')),
           Sleep 5,
           Log ErrorLevel ''ListenTCP()''
             (Some (NetError ''listen tcp :7000: bind: address already in use'')),
           Sleep 5])
   \<and> bind_loop (example_env (\<lambda>j. False) (\<lambda>j. False)) 0 (example_frontend False [], []) = None
   \<and> bind_loop (example_env (\<lambda>j. 1 \<le> j) (\<lambda>j. False)) 0 (example_frontend False [], []) \<noteq> None
   \<and> (\<exists>m l. ListenTCP (example_env (\<lambda>j. False) (\<lambda>j. 2 \<le> j)) m = Inr l
        \<and> bind_loop (example_env (\<lambda>j. False) (\<lambda>j. 2 \<le> j)) 0 (example_frontend False [], [])
          = Some (True, (example_frontend False [])\<lparr>tcpListener := Some l\<rparr>,
                  [] @ failed_binds (example_env (\<lambda>j. False) (\<lambda>j. 2 \<le> j)) 0 (m - 0)))
   \<and> (\<exists>l tr. run_start (example_env (\<lambda>j. False) (\<lambda>j. 2 \<le> j)) (example_frontend False [])
          = Some (True, (example_frontend False [])\<lparr>tcpListener := Some l\<rparr>,
                  tr @ [Go_listenForNewConn]))"
proof -
  let ?busy = "example_env (\<lambda>j. False) (\<lambda>j. 2 \<le> j)"
  let ?stuck = "example_env (\<lambda>j. False) (\<lambda>j. False)"
  let ?cancelled = "example_env (\<lambda>j. 1 \<le> j) (\<lambda>j. False)"
  let ?f = "example_frontend False []"
  have a: "\<forall>j<2. \<not> ctx_done_at ?busy (0 + j) \<and> isl (ListenTCP ?busy (0 + j))"
    by (simp add: example_env_def)
  have b: "\<forall>j. \<not> ctx_done_at ?stuck j \<and> isl (ListenTCP ?stuck j)"
    by (simp add: example_env_def)
  have c: "\<exists>m\<ge>0. ctx_done_at ?cancelled m \<or> \<not> isl (ListenTCP ?cancelled m)"
    by (intro exI [of _ 1]) (simp add: example_env_def)
  have c2: "\<exists>m\<ge>0. ctx_done_at ?busy m \<or> \<not> isl (ListenTCP ?busy m)"
    by (intro exI [of _ 2]) (simp add: example_env_def)
  have fb: "failed_binds ?busy 0 2 =
          [Log ErrorLevel ''ListenTCP()''
             (Some (NetError ''listen tcp :7000: bind: address already in use'')),
           Sleep 5,
           Log ErrorLevel ''ListenTCP()''
             (Some (NetError ''listen tcp :7000: bind: address already in use'')),
           Sleep 5]"
    by (simp add: example_env_def numeral_2_eq_2)
  note t = bind_loop_retries [of _ _ 0 ?f "[]"]
  have A: "bind_loop ?busy 0 (?f, []) = bind_loop ?busy (0 + 2) (?f, [] @ failed_binds ?busy 0 2)"
    using t [of 2 ?busy, THEN conjunct1] a by (rule mp)
  have B: "bind_loop ?stuck 0 (?f, []) = None"
    using t [of 0 ?stuck, THEN conjunct2, THEN conjunct1] b by (rule mp)
  have C: "bind_loop ?cancelled 0 (?f, []) \<noteq> None"
    using t [of 0 ?cancelled, THEN conjunct2, THEN conjunct2, THEN conjunct1] c by (rule mp)
  have e: "bind_loop ?busy 0 (?f, []) \<noteq> None"
    using t [of 0 ?busy, THEN conjunct2, THEN conjunct2, THEN conjunct1] c2 by (rule mp)
  then obtain r where r: "bind_loop ?busy 0 (?f, []) = Some r" by blast
  have nd: "\<And>m. \<not> ctx_done_at ?busy m" by (simp add: example_env_def)
  from t [of 0 ?busy, THEN conjunct2, THEN conjunct2, THEN conjunct2, THEN conjunct1,
        rule_format, OF r]
  obtain m where "if ctx_done_at ?busy m then r = (False, ?f, [] @ failed_binds ?busy 0 (m - 0))
            else \<exists>l. ListenTCP ?busy m = Inr l \<and>
                   r = (True, ?f\<lparr>tcpListener := Some l\<rparr>, [] @ failed_binds ?busy 0 (m - 0))"
    by blast
  with nd r have D: "\<exists>m l. ListenTCP ?busy m = Inr l
        \<and> bind_loop ?busy 0 (?f, []) = Some (True, ?f\<lparr>tcpListener := Some l\<rparr>,
                  [] @ failed_binds ?busy 0 (m - 0))"
    by auto
  from A have A': "bind_loop ?busy 0 (?f, []) = bind_loop ?busy 2 (?f,
          [Log ErrorLevel ''ListenTCP()''
             (Some (NetError ''listen tcp :7000: bind: address already in use'')),
           Sleep 5,
           Log ErrorLevel ''ListenTCP()''
             (Some (NetError ''listen tcp :7000: bind: address already in use'')),
           Sleep 5])"
    by (simp only: fb append_Nil add_0)
  from D obtain m l where
    "bind_loop ?busy 0 (?f, []) = Some (True, ?f\<lparr>tcpListener := Some l\<rparr>,
       [] @ failed_binds ?busy 0 (m - 0))"
    by blast
  then have rs: "run_start ?busy ?f = Some (True, ?f\<lparr>tcpListener := Some l\<rparr>,
       ([] @ failed_binds ?busy 0 (m - 0)) @ [Go_listenForNewConn])"
    by (simp add: run_start_def)
  note t5 = t [of 0 ?busy, THEN conjunct2, THEN conjunct2, THEN conjunct2, THEN conjunct2,
        rule_format, OF rs]
  from rs t5
  have E: "\<exists>l tr. run_start ?busy ?f
      = Some (True, ?f\<lparr>tcpListener := Some l\<rparr>, tr @ [Go_listenForNewConn])"
    by blast
  from A' B C D E show ?thesis by blast
qed

section \<open>A fresh backend is inactive\<close>

text \<open>
  C9. A backend made by \<open>newBackend\<close> has \<open>active = false\<close>, and from there (no probe and no
  traffic dial is in flight yet) it stays false over any interleaving of steps on the
  backend in which no health check dialled successfully.
\<close>

theorem fresh_backend_inactive:
  assumes "newBackend SplitHostPort ctx address = Inr b"
  shows "\<not> active b
       \<and> (\<not> probe_succeeded ops (b, h, n, None, []) \<longrightarrow>
            \<not> active (fst (b_exec ops (b, h, n, None, []))))"
proof -
  from assms have "\<not> active b"
    by (auto simp: newBackend_def split: option.splits)
  then show ?thesis
    using b_exec_inactive [of "(b, h, n, None, [])" ops] by (simp add: probe_in_flight_def)
qed

theorem fresh_backend_inactive_witness:
  "newBackend (\<lambda>a. None) False ''10.0.0.2:9000'' = Inr (example_backend ''10.0.0.2:9000'' False False [])
   \<and> \<not> probe_succeeded [ProbeDial, TrafficDial, ProbeSet, TrafficReturn 0, CreateConn, AddConn 0]
        (example_backend ''10.0.0.2:9000'' False False [], example_heap,
         example_network (\<lambda>k. False), None, [])
   \<and> \<not> active (fst (b_exec [ProbeDial, TrafficDial, ProbeSet, TrafficReturn 0, CreateConn, AddConn 0]
        (example_backend ''10.0.0.2:9000'' False False [], example_heap,
         example_network (\<lambda>k. False), None, [])))"
proof -
  let ?ops = "[ProbeDial, TrafficDial, ProbeSet, TrafficReturn 0, CreateConn, AddConn 0]"
  have h: "newBackend (\<lambda>a. None) False ''10.0.0.2:9000''
      = Inr (example_backend ''10.0.0.2:9000'' False False [])"
    by (simp add: newBackend_def example_defs)
  have p: "\<not> probe_succeeded ?ops
        (example_backend ''10.0.0.2:9000'' False False [], example_heap,
         example_network (\<lambda>k. False), None, [])"
    by (simp add: example_defs createConn_def traffic_return_def probe_dial_def probe_set_def
        DialContext_def setActive_eq dial_succeeds_def no_probe_def)
  from fresh_backend_inactive [OF h, of ?ops example_heap "example_network (\<lambda>k. False)"] h p
  show ?thesis by blast
qed

section \<open>Deregistering a handle after cancellation\<close>

text \<open>
  C10. When the manager's context is done, \<open>delConn\<close> changes neither the manager nor the
  store, for a backend and for a frontend; a handle that was in the map is still there.
\<close>

theorem delConn_cancelled_noop:
  "(b_ctx b \<longrightarrow> b_delConn p (b, h) = (b, h))
   \<and> (f_ctx f \<longrightarrow> f_delConn p (f, h) = (f, h))
   \<and> (b_ctx b \<and> map_of (b_connections b) (fd (h p)) = Some p \<longrightarrow>
        map_of (b_connections (fst (b_delConn p (b, h)))) (fd (h p)) = Some p)
   \<and> (f_ctx f \<and> map_of (f_connections f) (fd (h p)) = Some p \<longrightarrow>
        map_of (f_connections (fst (f_delConn p (f, h)))) (fd (h p)) = Some p)"
  by (simp add: b_delConn_def f_delConn_def)

theorem delConn_cancelled_noop_witness:
  "b_delConn 0 (example_backend ''127.0.0.1:9000'' True True [(7, 0)], example_heap)
     = (example_backend ''127.0.0.1:9000'' True True [(7, 0)], example_heap)
   \<and> f_delConn 0 (example_frontend True [(7, 0)], example_heap)
     = (example_frontend True [(7, 0)], example_heap)
   \<and> map_of (b_connections (fst (b_delConn 0
        (example_backend ''127.0.0.1:9000'' True True [(7, 0)], example_heap)))) 7 = Some 0
   \<and> map_of (f_connections (fst (f_delConn 0 (example_frontend True [(7, 0)], example_heap)))) 7
       = Some 0"
  using delConn_cancelled_noop [of "example_backend ''127.0.0.1:9000'' True True [(7, 0)]" 0
      example_heap "example_frontend True [(7, 0)]"]
  by (simp add: example_defs newConn_def fdFromConn_def)

end
